theory Spec2Isabelle
  imports Complex_Main
begin

section \<open>Python values and errors\<close>

text \<open>
  The exceptions that the modelled functions of \<^verbatim>\<open>plate_utils.py\<close>,
  \<^verbatim>\<open>timeline.py\<close> and \<^verbatim>\<open>mangaLogicTimeline.py\<close> can raise. A function
  that can raise returns \<open>py_error + 'a\<close>, with \<open>Inl\<close> for the exception.
\<close>

datatype py_error =
  TypeError | IndexError | ValueError | AssertionError | OverflowError | TotoroError

section \<open>Consecutive set identifiers (\<^verbatim>\<open>getConsecutiveSets\<close>)\<close>

text \<open>
  \<^verbatim>\<open>session.query(db.mangaDB.Set.pk).all()\<close> returns one 1-tuple per row of the set
  table, so \<^verbatim>\<open>np.array(setPKs)\<close> has shape \<open>(n, 1)\<close>. \<^verbatim>\<open>squeeze()\<close> drops every
  axis of length one: for \<open>n = 1\<close> the result is a 0-dimensional array and
  \<^verbatim>\<open>tolist()\<close> gives a bare integer, otherwise a list.
\<close>

datatype pyval = PyInt int | PyList "int list"

definition squeeze_tolist :: "int list \<Rightarrow> pyval" where
  "squeeze_tolist rows = (case rows of [p] \<Rightarrow> PyInt p | _ \<Rightarrow> PyList rows)"

definition py_sorted :: "pyval \<Rightarrow> py_error + int list" where
  "py_sorted v = (case v of PyInt _ \<Rightarrow> Inl TypeError | PyList xs \<Rightarrow> Inr (sort xs))"

text \<open>\<^verbatim>\<open>np.where(np.diff(c) != 1)[0] + 1\<close>: the positions where a new run starts.\<close>

definition diff_breaks :: "int list \<Rightarrow> nat list" where
  "diff_breaks c = map Suc (filter (\<lambda>i. c ! Suc i - c ! i \<noteq> 1) [0..<length c - 1])"

text \<open>\<^verbatim>\<open>np.split(c, idxs)\<close>: the slices \<open>c[:i0], c[i0:i1], ..., c[ik:]\<close>.\<close>

definition np_split :: "'a list \<Rightarrow> nat list \<Rightarrow> 'a list list" where
  "np_split c idxs =
     map (\<lambda>(a, b). take (b - a) (drop a c)) (zip (0 # idxs) (idxs @ [length c]))"

definition getConsecutiveSets :: "int list \<Rightarrow> nat \<Rightarrow> py_error + int list" where
  "getConsecutiveSets rows nSets =
     (case py_sorted (squeeze_tolist rows) of
        Inl e \<Rightarrow> Inl e
      | Inr setPKs \<Rightarrow>
          if setPKs = [] then Inl IndexError
          else
            let candidatePKs = filter (\<lambda>ii. ii \<notin> set setPKs) [1..last setPKs];
                candidatePKsSplit = np_split candidatePKs (diff_breaks candidatePKs)
            in (case find (\<lambda>split. length split \<ge> nSets) candidatePKsSplit of
                  Some split \<Rightarrow> Inr (take nSets split)
                | None \<Rightarrow> Inr [last setPKs + 1 .. last setPKs + int nSets]))"

section \<open>Data model\<close>

text \<open>
  Dither positions are the entries of \<^verbatim>\<open>config['set']['ditherPositions']\<close>; an exposure
  without a dither position has \<^verbatim>\<open>ditherPosition = None\<close>.
\<close>

datatype dither = DitherN | DitherS | DitherE

text \<open>
  The status labels that the source compares with: \<^verbatim>\<open>'Excellent'\<close>, \<^verbatim>\<open>'Good'\<close>,
  \<^verbatim>\<open>'Incomplete'\<close>, \<^verbatim>\<open>'Bad'\<close>, \<^verbatim>\<open>'Unplugged'\<close>, \<^verbatim>\<open>'Override Good'\<close> and
  \<^verbatim>\<open>'Override Bad'\<close>. The substring tests \<^verbatim>\<open>'Override' in label\<close> and
  \<^verbatim>\<open>'Good' in status\<close> become the two predicates below.
\<close>

datatype set_status =
  Excellent | Good | Incomplete | Bad | Unplugged | OverrideGood | OverrideBad

definition isOverride :: "set_status \<Rightarrow> bool" where
  "isOverride s = (s = OverrideGood \<or> s = OverrideBad)"

definition containsGood :: "set_status \<Rightarrow> bool" where
  "containsGood s = (s = Good \<or> s = OverrideGood)"

text \<open>
  A band of an SN2 array is a float; \<open>None\<close> stands for NaN. Finite values are taken as
  reals (rounding and infinities are not modelled). An SN2 array has four bands:
  blue1, blue2, red1, red2.
\<close>

type_synonym band = "real option"
type_synonym sn2array = "band \<times> band \<times> band \<times> band"

record exposure =
  exposure_no :: int
  ditherPosition :: "dither option"
  sn2 :: sn2array
  valid :: bool
  isMock :: bool
  tmp :: bool

text \<open>
  A \<^verbatim>\<open>TotoroSet\<close>: its primary key (\<open>None\<close> for a set built from exposures and not in
  the database), the label of its database status (\<^verbatim>\<open>ss.status.label\<close>, \<open>None\<close> when
  \<^verbatim>\<open>ss.status is None\<close>) and its exposures.
\<close>

record tset =
  pk :: "int option"
  status :: "set_status option"
  totoroExposures :: "exposure list"

text \<open>
  Modelled from the spec: \<^verbatim>\<open>TotoroSet.fromExposures\<close> is not part of the sources given;
  a set created from exposures holds exactly these exposures, has no identifier and no
  status label.
\<close>

definition fromExposures :: "exposure list \<Rightarrow> tset" where
  "fromExposures exps = \<lparr>pk = None, status = None, totoroExposures = exps\<rparr>"

text \<open>
  Modelled from the spec: \<^verbatim>\<open>Set.getDitherPositions\<close> is not part of the sources given;
  it lists the dither positions of the exposures of the set.
\<close>

definition getDitherPositions :: "tset \<Rightarrow> dither option list" where
  "getDitherPositions ss = map ditherPosition (totoroExposures ss)"

text \<open>The configuration entries that the modelled functions read.\<close>

record config =
  plateBlue :: real
  plateRed :: real
  ditherPositions :: "dither list"
  setRearrangementFactor :: real
  permutationLimitPlate :: int
  permutationLimitIncomplete :: int

text \<open>
  The set quality evaluator and the other collaborators whose code is outside the
  sources given are parameters of the model: \<^verbatim>\<open>Set.getStatus()[0]\<close>,
  \<^verbatim>\<open>Set.getSN2Array()\<close>, the mean of the LST window of a set
  (\<^verbatim>\<open>intervals.calculateMean(ss.getLST(), wrapAt=24.)\<close>), the current sidereal time
  (\<^verbatim>\<open>site.localSiderealTime()\<close>) and the identity \<^verbatim>\<open>id(exp)\<close> of an exposure object.

  So are two behaviours of the interpreter and of SciPy that the sources rely on.
  \<open>firstOfSet\<close> is the iteration order of a Python set: for the elements of a set
  (listed in the order of the configuration) it gives the position of the element that
  \<^verbatim>\<open>list(...)[0]\<close> yields. \<open>factorialPower m k\<close> is the value of
  \<^verbatim>\<open>int(factorial(m) ** k)\<close>, which \<^verbatim>\<open>scipy.misc.factorial\<close> and the power compute in
  double precision: it is rounded when \<open>m!^k\<close> is not a double, and \<^verbatim>\<open>int\<close> raises
  \<^verbatim>\<open>OverflowError\<close> when the double is infinite.
\<close>

record env =
  getStatus :: "tset \<Rightarrow> set_status"
  getSN2Array :: "tset \<Rightarrow> sn2array"
  setMeanLST :: "tset \<Rightarrow> real"
  siteLST :: real
  idOf :: "exposure \<Rightarrow> int"
  firstOfSet :: "dither option list \<Rightarrow> nat"
  factorialPower :: "nat \<Rightarrow> nat \<Rightarrow> py_error + int"

section \<open>NumPy arithmetic with NaN\<close>

definition nan0 :: "band \<Rightarrow> real" where
  "nan0 b = (case b of None \<Rightarrow> 0 | Some x \<Rightarrow> x)"

text \<open>
  The values of an array that are not NaN, and \<^verbatim>\<open>np.nanmean\<close> and \<^verbatim>\<open>np.nanmin\<close>
  over them: NaN entries are left out, and an array of nothing but NaN gives NaN.
\<close>

definition measured :: "band list \<Rightarrow> real list" where
  "measured bs = concat (map (\<lambda>b. case b of None \<Rightarrow> [] | Some x \<Rightarrow> [x]) bs)"

definition nanmean :: "band list \<Rightarrow> band" where
  "nanmean bs =
     (if measured bs = [] then None
      else Some (sum_list (measured bs) / real (length (measured bs))))"

definition nanmin :: "band list \<Rightarrow> band" where
  "nanmin bs =
     (if measured bs = [] then None else Some (fold min (tl (measured bs)) (hd (measured bs))))"

definition band_div :: "band \<Rightarrow> real \<Rightarrow> band" where
  "band_div a t = map_option (\<lambda>x. x / t) a"

text \<open>\<^verbatim>\<open>array + 100\<close>: NaN stays NaN.\<close>

definition add100 :: "sn2array \<Rightarrow> sn2array" where
  "add100 a = (case a of (b1, b2, r1, r2) \<Rightarrow>
     (map_option (\<lambda>x. x + 100) b1, map_option (\<lambda>x. x + 100) b2,
      map_option (\<lambda>x. x + 100) r1, map_option (\<lambda>x. x + 100) r2))"

text \<open>\<^verbatim>\<open>np.nansum\<close> of the four bands of one array.\<close>

definition nansum4 :: "sn2array \<Rightarrow> real" where
  "nansum4 a = (case a of (b1, b2, r1, r2) \<Rightarrow> nan0 b1 + nan0 b2 + nan0 r1 + nan0 r2)"

text \<open>The index of the first element that satisfies a predicate (the length if none).\<close>

definition first_index :: "('a \<Rightarrow> bool) \<Rightarrow> 'a list \<Rightarrow> nat" where
  "first_index P xs = length (takeWhile (\<lambda>x. \<not> P x) xs)"

definition list_max :: "real list \<Rightarrow> real" where
  "list_max xs = fold max (tl xs) (hd xs)"

definition list_min :: "real list \<Rightarrow> real" where
  "list_min xs = fold min (tl xs) (hd xs)"

text \<open>\<^verbatim>\<open>np.argmax\<close> and \<^verbatim>\<open>np.argmin\<close> of finite values: the first index of the extremum.\<close>

definition argmax :: "real list \<Rightarrow> nat" where
  "argmax xs = first_index (\<lambda>x. x = list_max xs) xs"

definition argmin :: "real list \<Rightarrow> nat" where
  "argmin xs = first_index (\<lambda>x. x = list_min xs) xs"

text \<open>
  \<^verbatim>\<open>np.argmax\<close> of values that may be NaN: NaN counts as the maximum, so the index of
  the first NaN is returned when there is one.
\<close>

definition nan_argmax :: "band list \<Rightarrow> nat" where
  "nan_argmax xs =
     (if None \<in> set xs then first_index (\<lambda>x. x = None) xs else argmax (map nan0 xs))"

text \<open>
  \<^verbatim>\<open>np.nansum(arrays, axis=0)\<close>: the sum of a list of SN2 arrays band by band, NaN
  counting as zero.
\<close>

definition sumBands :: "sn2array list \<Rightarrow> real \<times> real \<times> real \<times> real" where
  "sumBands arrays =
     (sum_list (map (\<lambda>(b1, b2, r1, r2). nan0 b1) arrays),
      sum_list (map (\<lambda>(b1, b2, r1, r2). nan0 b2) arrays),
      sum_list (map (\<lambda>(b1, b2, r1, r2). nan0 r1) arrays),
      sum_list (map (\<lambda>(b1, b2, r1, r2). nan0 r2) arrays))"

definition zeroSN2 :: sn2array where
  "zeroSN2 = (Some 0, Some 0, Some 0, Some 0)"

text \<open>
  The completion that belongs to a summed SN2 array: the minimum of the blue and the red
  completion, each the mean of two bands divided by the threshold of the plate.
\<close>

definition completionOf :: "config \<Rightarrow> real \<times> real \<times> real \<times> real \<Rightarrow> real" where
  "completionOf cfg plateSN2 = (case plateSN2 of (b1, b2, r1, r2) \<Rightarrow>
     min (((b1 + b2) / 2) / plateBlue cfg) (((r1 + r2) / 2) / plateRed cfg))"

section \<open>Choosing the set of a new exposure (\<^verbatim>\<open>getOptimalSet\<close>)\<close>

text \<open>
  \<^verbatim>\<open>getValidDither\<close>. The source takes the first element of the Python set
  \<^verbatim>\<open>ditherPositions - setDithers\<close>; which element comes first is the choice of the
  interpreter (\<open>firstOfSet\<close>), always an element of the set. \<^verbatim>\<open>remainingDithers[0]\<close>
  on an empty list raises \<^verbatim>\<open>IndexError\<close>.
\<close>

definition getValidDither :: "config \<Rightarrow> env \<Rightarrow> tset \<Rightarrow> py_error + dither option" where
  "getValidDither cfg ev ss =
     (let ditherPositions = remdups (map Some (ditherPositions cfg));
          setDithers = remdups (getDitherPositions ss)
      in if length setDithers = length ditherPositions then Inr None
         else
           let remainingDithers = filter (\<lambda>d. d \<notin> set setDithers) ditherPositions
           in if remainingDithers = [] then Inl IndexError
              else Inr (remainingDithers !
                          (firstOfSet ev remainingDithers mod length remainingDithers)))"

text \<open>
  The exposure as it enters the hypothetical set: with its own dither position, or, when
  it has none, with an unused dither position of the set
  (\<^verbatim>\<open>assert tmpDither is not None\<close>).
\<close>

definition imputeDither :: "config \<Rightarrow> env \<Rightarrow> tset \<Rightarrow> exposure \<Rightarrow> py_error + exposure" where
  "imputeDither cfg ev ss exposure =
     (if ditherPosition exposure = None then
        (case getValidDither cfg ev ss of
           Inl e \<Rightarrow> Inl e
         | Inr None \<Rightarrow> Inl AssertionError
         | Inr (Some d) \<Rightarrow> Inr (exposure\<lparr>ditherPosition := Some d\<rparr>))
      else Inr exposure)"

text \<open>
  The loop over the incomplete sets: \<open>acc\<close> holds \<^verbatim>\<open>validSets\<close> and \<^verbatim>\<open>signalNoise\<close>
  side by side.
\<close>

fun optimalSetLoop ::
  "config \<Rightarrow> env \<Rightarrow> exposure \<Rightarrow> tset list \<Rightarrow> (tset \<times> sn2array) list
     \<Rightarrow> py_error + (tset \<times> sn2array) list" where
  "optimalSetLoop cfg ev exposure [] acc = Inr acc"
| "optimalSetLoop cfg ev exposure (ss # rest) acc =
     (if ditherPosition exposure \<in> set (getDitherPositions ss)
      then optimalSetLoop cfg ev exposure rest acc
      else
        (case imputeDither cfg ev ss exposure of
           Inl e \<Rightarrow> Inl e
         | Inr exposure' \<Rightarrow>
             let mockSet = fromExposures (totoroExposures ss @ [exposure']);
                 status = getStatus ev mockSet
             in if status = Good \<or> status = Excellent
                then optimalSetLoop cfg ev exposure rest
                       (acc @ [(ss, add100 (getSN2Array ev mockSet))])
                else if status = Incomplete \<or> status = Unplugged
                then optimalSetLoop cfg ev exposure rest
                       (acc @ [(ss, getSN2Array ev mockSet)])
                else optimalSetLoop cfg ev exposure rest acc))"

text \<open>The contribution of one row of \<^verbatim>\<open>signalNoise\<close> to the completion.\<close>

definition contribution :: "config \<Rightarrow> sn2array \<Rightarrow> band" where
  "contribution cfg a = (case a of (b1, b2, r1, r2) \<Rightarrow>
     nanmin [band_div (nanmean [b1, b2]) (plateBlue cfg),
             band_div (nanmean [r1, r2]) (plateRed cfg)])"

definition incompleteSets :: "env \<Rightarrow> tset list \<Rightarrow> tset list" where
  "incompleteSets ev sets =
     filter (\<lambda>ss. getStatus ev ss = Incomplete \<or> getStatus ev ss = Unplugged) sets"

definition getOptimalSet :: "config \<Rightarrow> env \<Rightarrow> tset list \<Rightarrow> exposure \<Rightarrow> py_error + tset option" where
  "getOptimalSet cfg ev sets exposure =
     (case optimalSetLoop cfg ev exposure (incompleteSets ev sets) [] of
        Inl e \<Rightarrow> Inl e
      | Inr cands \<Rightarrow>
          if cands = [] then Inr None
          else
            let completion = map (\<lambda>(ss, a). contribution cfg a) cands
            in Inr (Some (fst (cands ! nan_argmax completion))))"






section \<open>The set quality evaluator of the design\<close>

text \<open>
  Modelled from the spec: \<^verbatim>\<open>Set.getStatus\<close> and \<^verbatim>\<open>Set.getSN2Array\<close> are not part of
  the sources given. The design document describes them: the SN2 array of a set is the
  per-band sum over its exposures, NaN counting as zero; an override label forces the
  status; a set is Bad if an exposure is not valid, if dither positions collide (an
  exposure without dither position collides with none) or if its ensemble metrics are
  outside their windows; Excellent or Good with three exposures whose per-band sums exceed
  the thresholds; Incomplete with fewer than three exposures, Unplugged if moreover the
  plate is not plugged. The properties below hold for every evaluator; this one serves
  for the concrete inputs. The design names no status for three exposures below the Good
  thresholds or for more than three exposures; they are taken as Bad. The comparison of
  the ensemble metrics with their windows is the parameter \<open>metricsOK\<close>.
\<close>

record thresholds =
  setExcellentBlue :: real
  setExcellentRed :: real
  setGoodBlue :: real
  setGoodRed :: real

definition specSN2Array :: "tset \<Rightarrow> sn2array" where
  "specSN2Array ss = (case sumBands (map sn2 (totoroExposures ss)) of
     (b1, b2, r1, r2) \<Rightarrow> (Some b1, Some b2, Some r1, Some r2))"

definition exceeds :: "real \<times> real \<times> real \<times> real \<Rightarrow> real \<Rightarrow> real \<Rightarrow> bool" where
  "exceeds a blue red = (case a of (b1, b2, r1, r2) \<Rightarrow>
     b1 > blue \<and> b2 > blue \<and> r1 > red \<and> r2 > red)"

definition specStatus ::
  "thresholds \<Rightarrow> bool \<Rightarrow> (exposure list \<Rightarrow> bool) \<Rightarrow> tset \<Rightarrow> set_status" where
  "specStatus thr plugged metricsOK ss =
     (case status ss of
        Some OverrideGood \<Rightarrow> OverrideGood
      | Some OverrideBad \<Rightarrow> OverrideBad
      | _ \<Rightarrow>
          let exps = totoroExposures ss;
              dithers = filter (\<lambda>d. d \<noteq> None) (map ditherPosition exps);
              total = sumBands (map sn2 exps)
          in if (\<exists>e \<in> set exps. \<not> valid e) \<or> \<not> distinct dithers \<or> \<not> metricsOK exps
                \<or> length exps > 3
             then Bad
             else if length exps = 3 then
               (if exceeds total (setExcellentBlue thr) (setExcellentRed thr) then Excellent
                else if exceeds total (setGoodBlue thr) (setGoodRed thr) then Good
                else Bad)
             else if plugged then Incomplete else Unplugged)"

text \<open>
  Double precision for the concrete inputs. A natural number below \<open>2^53\<close> is a double;
  a larger one is rounded to 53 significant bits, ties to even. \<^verbatim>\<open>factorial(m)\<close> is
  the Gamma function of SciPy, which multiplies \<open>m (m - 1) ... 2\<close> in double precision
  for \<open>m \<le> 32\<close> (exactly while \<open>m! < 2^53\<close>, that is for \<open>m \<le> 18\<close>) and is infinite from
  \<open>m = 171\<close> on; \<^verbatim>\<open>x ** 0\<close> is 1 for every \<open>x\<close>, \<^verbatim>\<open>x ** 1\<close> is \<open>x\<close> and \<^verbatim>\<open>x ** 2\<close> is
  the rounded product \<open>x * x\<close>. \<open>doubleFactorialPower\<close> rounds the exact power once:
  it is the value of \<^verbatim>\<open>int(factorial(m) ** k)\<close> when \<open>m!^k < 2^53\<close>, when \<open>m \<le> 18\<close> and
  \<open>k \<le> 2\<close>, and when \<open>m \<ge> 171\<close>; elsewhere the libraries accumulate rounding errors
  that it leaves out, and the concrete inputs stay clear of that range.
\<close>

function bitLength :: "int \<Rightarrow> nat" where
  "bitLength n = (if n \<le> 0 then 0 else Suc (bitLength (n div 2)))"
  by pat_completeness auto
termination
  by (relation "measure nat") auto

definition roundToDouble :: "int \<Rightarrow> int" where
  "roundToDouble n =
     (let e = bitLength n - 53;
          q = n div 2 ^ e;
          r = n mod 2 ^ e
      in if 2 * r > 2 ^ e \<or> (2 * r = 2 ^ e \<and> odd q) then (q + 1) * 2 ^ e else q * 2 ^ e)"

primrec intFactorial :: "nat \<Rightarrow> int" where
  "intFactorial 0 = 1"
| "intFactorial (Suc n) = int (Suc n) * intFactorial n"

definition doubleFactorialPower :: "nat \<Rightarrow> nat \<Rightarrow> py_error + int" where
  "doubleFactorialPower m k =
     (if k = 0 then Inr 1
      else if m > 170 then Inl OverflowError
      else if bitLength (roundToDouble (intFactorial m ^ k)) > 1024 then Inl OverflowError
      else Inr (roundToDouble (intFactorial m ^ k)))"

text \<open>
  An evaluator of the design as an environment: every set has its LST window centred at
  0 h and the sidereal time is 0 h. The identity of the object of exposure number \<open>n\<close> is
  \<open>2^n\<close>, so that sets of different exposures have different sums of identities (the
  exposure numbers of the concrete inputs are positive and distinct). The first element
  of a Python set is the first one in the order of the configuration.
\<close>

definition specEnv :: "thresholds \<Rightarrow> bool \<Rightarrow> (exposure list \<Rightarrow> bool) \<Rightarrow> env" where
  "specEnv thr plugged metricsOK =
     \<lparr>getStatus = specStatus thr plugged metricsOK, getSN2Array = specSN2Array,
      setMeanLST = (\<lambda>ss. 0), siteLST = 0, idOf = (\<lambda>e. 2 ^ nat (exposure_no e)),
      firstOfSet = (\<lambda>remaining. 0), factorialPower = doubleFactorialPower\<rparr>"

definition mkExposure :: "int \<Rightarrow> dither option \<Rightarrow> real \<Rightarrow> exposure" where
  "mkExposure n d s =
     \<lparr>exposure_no = n, ditherPosition = d, sn2 = (Some s, Some s, Some s, Some s),
      valid = True, isMock = False, tmp = False\<rparr>"

definition cfg0 :: config where
  "cfg0 = \<lparr>plateBlue = 20, plateRed = 36, ditherPositions = [DitherN, DitherS, DitherE],
           setRearrangementFactor = 1, permutationLimitPlate = 30,
           permutationLimitIncomplete = 30\<rparr>"

definition thr0 :: thresholds where
  "thr0 = \<lparr>setExcellentBlue = 6, setExcellentRed = 6, setGoodBlue = 2, setGoodRed = 2\<rparr>"

definition env0 :: env where
  "env0 = specEnv thr0 True (\<lambda>exps. True)"

section \<open>Permutations of exposures (\<^verbatim>\<open>getNumberPermutations\<close>, \<^verbatim>\<open>calculatePermutations\<close>)\<close>

text \<open>
  The order in which \<^verbatim>\<open>sorted\<close> puts dither positions: in Python 2, \<^verbatim>\<open>None\<close> comes
  before every string, and the strings compare alphabetically.
\<close>

fun ditherKey :: "dither option \<Rightarrow> nat" where
  "ditherKey None = 0"
| "ditherKey (Some DitherE) = 1"
| "ditherKey (Some DitherN) = 2"
| "ditherKey (Some DitherS) = 3"

text \<open>\<^verbatim>\<open>repDict[cc] += 1\<close> on a \<^verbatim>\<open>defaultdict(int)\<close>, the dictionary as an association list.\<close>

definition increment :: "'k \<Rightarrow> ('k \<times> nat) list \<Rightarrow> ('k \<times> nat) list" where
  "increment cc repDict =
     (case map_of repDict cc of
        None \<Rightarrow> repDict @ [(cc, 1)]
      | Some n \<Rightarrow> map (\<lambda>(k, v). if k = cc then (k, n + 1) else (k, v)) repDict)"

text \<open>
  \<^verbatim>\<open>getNumberPermutations\<close> (``estimates the number of permutations''). The last line,
  \<^verbatim>\<open>int(factorial(maxNDither) ** (len(repDict.keys()) - 1))\<close>, is floating-point
  arithmetic of SciPy: \<open>factorialPower\<close>.
\<close>

definition getNumberPermutations :: "env \<Rightarrow> dither option list \<Rightarrow> py_error + int" where
  "getNumberPermutations ev dithers =
     (if length dithers = 0 then Inr 0
      else
        let repDict = fold increment dithers [];
            maxNDither = fold (\<lambda>(key, n) m. if n > m then n else m) repDict 0
        in factorialPower ev maxNDither (length repDict - 1))"

text \<open>\<^verbatim>\<open>itertools.groupby\<close>: the maximal runs of elements with equal keys.\<close>

function groupby :: "('a \<Rightarrow> 'k) \<Rightarrow> 'a list \<Rightarrow> 'a list list" where
  "groupby key [] = []"
| "groupby key (x # xs) =
     (x # takeWhile (\<lambda>y. key y = key x) xs) # groupby key (dropWhile (\<lambda>y. key y = key x) xs)"
  by pat_completeness auto
termination
  by (relation "measure (\<lambda>(key, xs). length xs)") (auto simp: length_dropWhile_le less_Suc_eq_le)

text \<open>
  \<^verbatim>\<open>itertools.permutations\<close>: every element in turn, followed by the permutations of the
  others, positions (not values) telling elements apart.
\<close>

fun picks :: "'a list \<Rightarrow> ('a \<times> 'a list) list" where
  "picks [] = []"
| "picks (x # xs) = (x, xs) # map (\<lambda>(y, ys). (y, x # ys)) (picks xs)"

primrec perms_n :: "nat \<Rightarrow> 'a list \<Rightarrow> 'a list list" where
  "perms_n 0 xs = [[]]"
| "perms_n (Suc n) xs = concat (map (\<lambda>(y, ys). map ((#) y) (perms_n n ys)) (picks xs))"

definition permutations :: "'a list \<Rightarrow> 'a list list" where
  "permutations xs = perms_n (length xs) xs"

text \<open>\<^verbatim>\<open>itertools.izip_longest\<close> with the fill value \<^verbatim>\<open>None\<close>.\<close>

definition izip_longest :: "'a option list list \<Rightarrow> 'a option list list" where
  "izip_longest rows =
     map (\<lambda>i. map (\<lambda>r. if i < length r then r ! i else None) rows)
       [0..<foldr max (map length rows) 0]"

text \<open>
  \<^verbatim>\<open>calculatePermutations\<close>; \<^verbatim>\<open>itertools.product\<close> is \<^const>\<open>product_lists\<close>. The
  generator is the list of what it yields: each element is one arrangement, a list of
  sets, each set a tuple of indices into the input (or \<^verbatim>\<open>None\<close>).
\<close>

definition indicesSeed :: "dither option list \<Rightarrow> nat option list list" where
  "indicesSeed inputList =
     (let pairs = map (\<lambda>nn. (nn, inputList ! nn)) [0..<length inputList];
          pairs = sort_key (\<lambda>value. ditherKey (snd value)) pairs;
          splitPairs = groupby snd pairs;
          sortedPairs = rev (sort_key length splitPairs);
          indicesSeed = map (map fst) sortedPairs;
          nExpPerDither = map length indicesSeed
      in map (\<lambda>ii. map Some ii @ replicate (foldr max nExpPerDither 0 - length ii) None)
           indicesSeed)"

definition calculatePermutations :: "dither option list \<Rightarrow> nat option list list list" where
  "calculatePermutations inputList =
     (let seed = indicesSeed inputList;
          indices = (if length seed > 0
                     then [[hd seed]] @ map permutations (tl seed)
                     else [])
      in map izip_longest (product_lists indices))"

text \<open>
  The two numbers of the permutation count: the size \<open>m\<close> of the largest group of equal
  dither positions and the number \<open>k\<close> of distinct dither positions.
\<close>

definition maxGroupSize :: "dither option list \<Rightarrow> nat" where
  "maxGroupSize dithers = Max (count_list dithers ` set dithers)"

definition numDithers :: "dither option list \<Rightarrow> nat" where
  "numDithers dithers = card (set dithers)"

section \<open>Splitting bad sets (\<^verbatim>\<open>fixBadSets\<close>)\<close>

text \<open>
  What one Bad set contributes to \<^verbatim>\<open>toAdd\<close>. A Bad set without exposures reaches the
  last branch, where \<^verbatim>\<open>ss.totoroExposures[0]\<close> raises \<^verbatim>\<open>IndexError\<close>.
\<close>

definition repairSet :: "env \<Rightarrow> tset \<Rightarrow> py_error + tset list" where
  "repairSet ev ss =
     (let exps = totoroExposures ss
      in if length exps = 1 then Inl TotoroError
         else if length exps = 2 then Inr (map (\<lambda>expo. fromExposures [expo]) exps)
         else if length exps < 3 then Inl IndexError
         else
           let validSets =
                 filter (\<lambda>testSet. getStatus ev testSet \<noteq> Bad)
                   (map (\<lambda>(ii, jj). fromExposures [exps ! ii, exps ! jj])
                      [(0, 1), (0, 2), (1, 2)])
           in if length validSets = 0 then Inr (map (\<lambda>expo. fromExposures [expo]) exps)
              else
                let signalToNoise = map (\<lambda>xx. nansum4 (getSN2Array ev xx)) validSets;
                    maxSet = validSets ! argmax signalToNoise;
                    missingExposure =
                      filter (\<lambda>expo. expo \<notin> set (totoroExposures maxSet)) exps
                in Inr [maxSet, fromExposures missingExposure])"

fun fixLoop ::
  "env \<Rightarrow> tset list \<Rightarrow> tset list \<Rightarrow> tset list \<Rightarrow> py_error + (tset list \<times> tset list)" where
  "fixLoop ev [] toRemove toAdd = Inr (toRemove, toAdd)"
| "fixLoop ev (ss # rest) toRemove toAdd =
     (if getStatus ev ss \<noteq> Bad then fixLoop ev rest toRemove toAdd
      else (case repairSet ev ss of
              Inl e \<Rightarrow> Inl e
            | Inr new \<Rightarrow> fixLoop ev rest (toRemove @ [ss]) (toAdd @ new)))"

definition fixBadSets :: "env \<Rightarrow> tset list \<Rightarrow> py_error + tset list" where
  "fixBadSets ev setList =
     (case fixLoop ev setList [] [] of
        Inl e \<Rightarrow> Inl e
      | Inr (toRemove, toAdd) \<Rightarrow> Inr (fold remove1 toRemove setList @ toAdd))"

text \<open>
  The repair of a Bad set in the words of the design: two exposures become two sets of
  one exposure; of three exposures, the 2-exposure subsets that are not Bad are compared
  by the sum of their SN2, the best one becomes a set and the remaining exposure another,
  and when every 2-exposure subset is Bad each exposure becomes a set of its own.
\<close>

fun repairBadSet :: "env \<Rightarrow> exposure list \<Rightarrow> tset list" where
  "repairBadSet ev [a, b] = [fromExposures [a], fromExposures [b]]"
| "repairBadSet ev [a, b, c] =
     (let subsets = [([a, b], c), ([a, c], b), ([b, c], a)];
          nonBad = filter (\<lambda>(pair, other). getStatus ev (fromExposures pair) \<noteq> Bad) subsets
      in if nonBad = [] then [fromExposures [a], fromExposures [b], fromExposures [c]]
         else
           let best = nonBad ! argmax (map (\<lambda>(pair, other).
                        nansum4 (getSN2Array ev (fromExposures pair))) nonBad)
           in [fromExposures (fst best), fromExposures [snd best]])"
| "repairBadSet ev exps = []"

section \<open>The plate and the database\<close>

text \<open>
  The state that the arrangement functions read and write: the rows of the table of sets
  (primary key and status label), the \<^verbatim>\<open>set_pk\<close> of every exposure row
  (\<^verbatim>\<open>exp.mangadbExposure[0].set_pk\<close>, by exposure number: every wrapper of an exposure
  shares the row), the science exposures of the plate and the list \<^verbatim>\<open>plate.sets\<close> held in
  memory.
\<close>

record world =
  setTable :: "(int \<times> set_status option) list"
  set_pk_of :: "int \<Rightarrow> int option"
  scienceExposures :: "exposure list"
  plateSets :: "tset list"

text \<open>
  \<^verbatim>\<open>_getSetStatusLabel\<close>: the label of the set row of an exposure (exposures without
  \<^verbatim>\<open>mangadbExposure\<close> record are not modelled).
\<close>

definition getSetStatusLabel :: "world \<Rightarrow> exposure \<Rightarrow> set_status option" where
  "getSetStatusLabel w expo =
     (case set_pk_of w (exposure_no expo) of
        None \<Rightarrow> None
      | Some p \<Rightarrow> (case map_of (setTable w) p of None \<Rightarrow> None | Some label \<Rightarrow> label))"

definition hasOverrideLabel :: "set_status option \<Rightarrow> bool" where
  "hasOverrideLabel label = (case label of None \<Rightarrow> False | Some l \<Rightarrow> isOverride l)"

text \<open>
  Modelled from the spec: \<^verbatim>\<open>Plate.getMangaDBSets\<close> and the constructor \<^verbatim>\<open>TotoroSet(ss)\<close>
  are not part of the sources given. Reloading gives the sets of the table that hold an
  exposure of the plate, in the order of their identifiers, each with its label and its
  exposures in the order of their exposure numbers.
\<close>

definition getMangaDBSets :: "world \<Rightarrow> tset list" where
  "getMangaDBSets w =
     map (\<lambda>(p, label).
            \<lparr>pk = Some p, status = label,
             totoroExposures =
               sort_key exposure_no
                 (filter (\<lambda>e. set_pk_of w (exposure_no e) = Some p) (scienceExposures w))\<rparr>)
       (filter (\<lambda>(p, label). \<exists>e \<in> set (scienceExposures w). set_pk_of w (exposure_no e) = Some p)
          (sort_key fst (setTable w)))"

text \<open>
  Modelled from the spec: \<^verbatim>\<open>Plate.getPlateCompletion\<close> is not part of the sources given.
  The completion of a plate sums the SN2 arrays of its sets that are not Bad; the source
  says of the sum over the sets with status Excellent, Good or Override Good that it is
  what \<^verbatim>\<open>getPlateCompletion\<close> computes, and \<^verbatim>\<open>includeIncompleteSets\<close> adds the sets
  that are Incomplete or Unplugged.
\<close>

definition getPlateCompletion :: "config \<Rightarrow> env \<Rightarrow> bool \<Rightarrow> tset list \<Rightarrow> real" where
  "getPlateCompletion cfg ev includeIncompleteSets setList =
     completionOf cfg (sumBands (map (getSN2Array ev)
       (filter (\<lambda>ss. getStatus ev ss = Excellent \<or> getStatus ev ss = Good
                      \<or> getStatus ev ss = OverrideGood
                      \<or> (includeIncompleteSets \<and>
                           (getStatus ev ss = Incomplete \<or> getStatus ev ss = Unplugged)))
          setList)))"

section \<open>Assigning new exposures (\<^verbatim>\<open>assignExposureToOptimalSet\<close>, \<^verbatim>\<open>updatePlate\<close>)\<close>

text \<open>
  The new set appended to \<^verbatim>\<open>plate.sets\<close> is \<^verbatim>\<open>TotoroSet(newSet)\<close>; modelled from the
  spec, it is the singleton set that contains the exposure.
\<close>

definition assignExposureToOptimalSet ::
  "config \<Rightarrow> env \<Rightarrow> world \<Rightarrow> exposure \<Rightarrow> py_error + world" where
  "assignExposureToOptimalSet cfg ev w exposure =
     (case getOptimalSet cfg ev (plateSets w) exposure of
        Inl e \<Rightarrow> Inl e
      | Inr None \<Rightarrow>
          (case getConsecutiveSets (map fst (setTable w)) 1 of
             Inl e \<Rightarrow> Inl e
           | Inr pks \<Rightarrow>
               (case pks of
                  [] \<Rightarrow> Inl IndexError
                | setPK # _ \<Rightarrow>
                    if setPK \<notin> fst ` set (setTable w)
                    then Inr (w\<lparr>setTable := setTable w @ [(setPK, None)],
                              set_pk_of := (set_pk_of w)(exposure_no exposure := Some setPK),
                              plateSets := plateSets w @
                                [\<lparr>pk = Some setPK, status = None,
                                  totoroExposures = [exposure]\<rparr>]\<rparr>)
                    else Inr w))
      | Inr (Some optimalSet) \<Rightarrow>
          Inr (w\<lparr>set_pk_of := (set_pk_of w)(exposure_no exposure := pk optimalSet),
                 plateSets := map (\<lambda>ss. if pk ss = pk optimalSet
                                        then ss\<lparr>totoroExposures := totoroExposures ss @ [exposure]\<rparr>
                                        else ss) (plateSets w)\<rparr>))"

text \<open>
  \<^verbatim>\<open>getUnassignedExposures\<close> followed by the validity filter of \<^verbatim>\<open>updatePlate\<close>.
\<close>

definition getUnassignedExposures :: "world \<Rightarrow> exposure list" where
  "getUnassignedExposures w =
     sort_key exposure_no
       (filter (\<lambda>scienceExp. set_pk_of w (exposure_no scienceExp) = None) (scienceExposures w))"

definition newExposures :: "world \<Rightarrow> exposure list" where
  "newExposures w = filter valid (getUnassignedExposures w)"

text \<open>
  The loop of \<^verbatim>\<open>updatePlate\<close>. The call
  \<^verbatim>\<open>rearrangeSets(plate, mode='optimal', scope='incomplete', silent=True)\<close> is the
  parameter \<open>rearrange\<close>, so that \<^verbatim>\<open>rearrangeSets\<close>, which itself calls
  \<^verbatim>\<open>updatePlate(plate, rearrangeIncomplete=False)\<close>, can be defined afterwards.
  \<^verbatim>\<open>checkOpenSession\<close> is outside the sources given: the model describes the calls that
  pass it.
\<close>

fun updateLoop ::
  "(world \<Rightarrow> py_error + bool \<times> world) \<Rightarrow> config \<Rightarrow> env \<Rightarrow> bool \<Rightarrow> exposure list \<Rightarrow> world
     \<Rightarrow> py_error + bool \<times> world" where
  "updateLoop rearrange cfg ev rearrangeIncomplete [] w = Inr (True, w)"
| "updateLoop rearrange cfg ev rearrangeIncomplete (expo # rest) w =
     (case assignExposureToOptimalSet cfg ev w expo of
        Inl e \<Rightarrow> Inl e
      | Inr w1 \<Rightarrow>
          if rearrangeIncomplete then
            (case rearrange w1 of
               Inl e \<Rightarrow> Inl e
             | Inr (result, w2) \<Rightarrow>
                 if \<not> result then Inr (result, w2)
                 else updateLoop rearrange cfg ev rearrangeIncomplete rest w2)
          else updateLoop rearrange cfg ev rearrangeIncomplete rest w1)"

definition updatePlateWith ::
  "(world \<Rightarrow> py_error + bool \<times> world) \<Rightarrow> config \<Rightarrow> env \<Rightarrow> bool \<Rightarrow> world
     \<Rightarrow> py_error + bool \<times> world" where
  "updatePlateWith rearrange cfg ev rearrangeIncomplete w =
     (if length (newExposures w) = 0 then Inr (False, w)
      else updateLoop rearrange cfg ev rearrangeIncomplete (newExposures w) w)"


section \<open>Rearranging the sets of a plate (\<^verbatim>\<open>rearrangeSets\<close>)\<close>

datatype mode = Sequential | Optimal

text \<open>
  The source compares \<^verbatim>\<open>mode.lower()\<close> with \<^verbatim>\<open>'sequential'\<close> and treats every other
  mode as optimal. It compares \<^verbatim>\<open>scope.lower()\<close> with \<^verbatim>\<open>'all'\<close> and
  \<^verbatim>\<open>'incomplete'\<close>, and once \<^verbatim>\<open>scope\<close> itself with \<^verbatim>\<open>'incomplete'\<close>: a scope such as
  \<^verbatim>\<open>'Incomplete'\<close> is \<open>ScopeIncompleteCased\<close>.
\<close>

datatype scope = ScopeAll | ScopeIncomplete | ScopeIncompleteCased | ScopeInvalid

text \<open>
  \<^verbatim>\<open>selectOpticalArrangement\<close>. \<^verbatim>\<open>arrangements[mask]\<close> keeps the arrangements whose
  completion satisfies the mask; \<^verbatim>\<open>np.max\<close> of no value and \<^verbatim>\<open>np.argmin\<close> of no value
  raise \<^verbatim>\<open>ValueError\<close>. \<open>pymod x 24\<close> is Python's \<^verbatim>\<open>x % 24.\<close>.
\<close>

definition pymod :: "real \<Rightarrow> real \<Rightarrow> real" where
  "pymod x m = x - m * of_int \<lfloor>x / m\<rfloor>"

definition masked :: "'a list \<Rightarrow> real list \<Rightarrow> (real \<Rightarrow> bool) \<Rightarrow> 'a list" where
  "masked arrangements completions P =
     map fst (filter (\<lambda>(a, c). P c) (zip arrangements completions))"

definition selectOpticalArrangement ::
  "config \<Rightarrow> env \<Rightarrow> tset list list \<Rightarrow> real list \<Rightarrow> real option \<Rightarrow> py_error + tset list" where
  "selectOpticalArrangement cfg ev arrangements completions LST =
     (if completions = [] then Inl ValueError
      else if \<exists>c \<in> set completions. c > 1 then
        let complete = masked arrangements completions (\<lambda>c. c = list_max completions)
        in if length complete = 1 then Inr (complete ! 0)
           else
             let nSets = map (\<lambda>sets. real (length sets)) complete
             in if complete = [] then Inl ValueError else Inr (complete ! argmin nSets)
      else
        let nSets = map (\<lambda>sets. real (length sets)) arrangements;
            completions = map (\<lambda>(c, n). c / n) (zip completions nSets);
            setRearrFactor = setRearrangementFactor cfg
        in if completions = [] then Inl ValueError
           else
             let minCompletion = list_max completions * setRearrFactor;
                 topArrangements = masked arrangements completions (\<lambda>c. c \<ge> minCompletion)
             in if length topArrangements = 1 then Inr (topArrangements ! 0)
                else
                  let LST = (case LST of None \<Rightarrow> siteLST ev | Some l \<Rightarrow> l);
                      cumulatedLSTdiffs =
                        map (\<lambda>arrangement.
                               sum_list (map (\<lambda>ss. pymod (setMeanLST ev ss - LST) 24) arrangement))
                          topArrangements
                  in if topArrangements = [] then Inl ValueError
                     else Inr (topArrangements ! argmin cumulatedLSTdiffs))"

text \<open>
  \<^verbatim>\<open>applyArrangement\<close>. In the branch without mock exposures, the first transaction
  deletes the set row of every exposure of a set of the plate that is not overridden
  (the statement \<^verbatim>\<open>exp.mangadbExposure.set_pk = None\<close> sets an attribute of the list of
  records and leaves \<^verbatim>\<open>set_pk\<close> as it is); then the new rows are created and the
  exposures assigned; then the sets of the plate are reloaded.
\<close>

definition deletePlateSets :: "world \<Rightarrow> world" where
  "deletePlateSets w =
     (let doomed =
            concat (map (\<lambda>ss. map (\<lambda>expo. set_pk_of w (exposure_no expo)) (totoroExposures ss))
                      (filter (\<lambda>ss. \<not> hasOverrideLabel (status ss)) (plateSets w)))
      in w\<lparr>setTable := filter (\<lambda>(p, label). Some p \<notin> set doomed) (setTable w)\<rparr>)"

fun createSets :: "world \<Rightarrow> (int \<times> tset) list \<Rightarrow> world" where
  "createSets w [] = w"
| "createSets w ((newPK, ss) # rest) =
     createSets
       (w\<lparr>setTable := setTable w @ [(newPK, None)],
          set_pk_of := (\<lambda>n. if n \<in> exposure_no ` set (totoroExposures ss) then Some newPK
                              else set_pk_of w n)\<rparr>)
       rest"

definition applyArrangement :: "world \<Rightarrow> tset list \<Rightarrow> py_error + bool \<times> world" where
  "applyArrangement w arrangement0 =
     (let arrangement = filter (\<lambda>ss. \<not> hasOverrideLabel (status ss)) arrangement0;
          expMock = concat (map (\<lambda>ss. map isMock (totoroExposures ss)) arrangement)
      in if \<not> (\<exists>m \<in> set expMock. m) then
           let w1 = deletePlateSets w
           in (case getConsecutiveSets (map fst (setTable w1)) (length arrangement) of
                 Inl e \<Rightarrow> Inl e
               | Inr pks \<Rightarrow>
                   let w2 = createSets w1 (zip pks arrangement)
                   in Inr (True, w2\<lparr>plateSets := getMangaDBSets w2\<rparr>))
         else Inr (True, w\<lparr>plateSets := arrangement\<rparr>))"

text \<open>
  The dictionaries \<^verbatim>\<open>setStatus\<close> and \<^verbatim>\<open>setSN2\<close>, keyed by \<^verbatim>\<open>getSetId\<close>, the sum of
  the identities of the exposure objects of a set.
\<close>

type_synonym memo = "int \<Rightarrow> (set_status \<times> sn2array) option"

definition getSetId :: "env \<Rightarrow> tset \<Rightarrow> int" where
  "getSetId ev ss = sum_list (map (idOf ev) (totoroExposures ss))"

definition memoOverridden :: "env \<Rightarrow> tset \<Rightarrow> memo \<Rightarrow> memo" where
  "memoOverridden ev ss m =
     m(getSetId ev ss \<mapsto>
         (getStatus ev ss,
          if containsGood (getStatus ev ss) then getSN2Array ev ss else zeroSN2))"

definition memoSet :: "env \<Rightarrow> tset \<Rightarrow> memo \<Rightarrow> memo" where
  "memoSet ev ss m =
     (if m (getSetId ev ss) = None then
        m(getSetId ev ss \<mapsto>
            (getStatus ev ss,
             if getStatus ev ss = Excellent \<or> getStatus ev ss = Good
                \<or> getStatus ev ss = OverrideGood
             then getSN2Array ev ss else zeroSN2))
      else m)"

text \<open>
  \<^verbatim>\<open>setSN2[getSetId(ss)]\<close>; every set looked up has been stored before, so the key is
  there.
\<close>

definition memoSN2 :: "memo \<Rightarrow> int \<Rightarrow> sn2array" where
  "memoSN2 m setId = (case m setId of None \<Rightarrow> zeroSN2 | Some (st, a) \<Rightarrow> a)"

text \<open>The sets that one permutation describes.\<close>

definition permutationSets :: "exposure list \<Rightarrow> nat option list list \<Rightarrow> tset list" where
  "permutationSets validExposures permutation =
     map (\<lambda>setIndices.
            fromExposures
              (concat (map (\<lambda>ii. case ii of None \<Rightarrow> [] | Some i \<Rightarrow> [validExposures ! i])
                         setIndices)))
       permutation"

text \<open>
  The loop over the permutations; the state holds the dictionaries, \<^verbatim>\<open>completions\<close>,
  \<^verbatim>\<open>goodArrangements\<close> and \<^verbatim>\<open>permutationCounter\<close>.
\<close>

type_synonym loop_state = "memo \<times> real list \<times> tset list list \<times> nat"

fun rearrangeLoop ::
  "config \<Rightarrow> env \<Rightarrow> exposure list \<Rightarrow> tset list \<Rightarrow> nat option list list list \<Rightarrow> loop_state
     \<Rightarrow> py_error + loop_state" where
  "rearrangeLoop cfg ev validExposures overridenSets [] st = Inr st"
| "rearrangeLoop cfg ev validExposures overridenSets (permutation # rest)
     (m, completions, goodArrangements, permutationCounter) =
     (let sets0 = permutationSets validExposures permutation;
          m' = fold (memoSet ev) sets0 m;
          sets = sets0 @ overridenSets;
          plateSN2 = sumBands (map (\<lambda>ss. memoSN2 m' (getSetId ev ss)) sets);
          plateCompletion = completionOf cfg plateSN2
      in if length completions = 0
            \<or> plateCompletion \<ge> setRearrangementFactor cfg * list_max completions
         then (case fixBadSets ev sets of
                 Inl e \<Rightarrow> Inl e
               | Inr fixed \<Rightarrow>
                   rearrangeLoop cfg ev validExposures overridenSets rest
                     (m', completions @ [plateCompletion], goodArrangements @ [fixed],
                      permutationCounter + 1))
         else rearrangeLoop cfg ev validExposures overridenSets rest
                (m', completions, goodArrangements, permutationCounter + 1))"

text \<open>The exposures that \<^verbatim>\<open>rearrangeSets\<close> considers and the overridden sets.\<close>

definition scopeExposures :: "env \<Rightarrow> scope \<Rightarrow> world \<Rightarrow> exposure list" where
  "scopeExposures ev sc w =
     (if sc = ScopeAll then scienceExposures w
      else concat (map totoroExposures (incompleteSets ev (plateSets w))))"

definition validExposures :: "env \<Rightarrow> scope \<Rightarrow> world \<Rightarrow> exposure list" where
  "validExposures ev sc w =
     filter (\<lambda>expo. \<not> hasOverrideLabel (getSetStatusLabel w expo) \<and> valid expo)
       (scopeExposures ev sc w)"

definition overridenSets :: "world \<Rightarrow> tset list" where
  "overridenSets w = filter (\<lambda>ss. hasOverrideLabel (status ss)) (plateSets w)"

definition permutationLimit :: "config \<Rightarrow> scope \<Rightarrow> int" where
  "permutationLimit cfg sc =
     (if sc = ScopeAll then permutationLimitPlate cfg else permutationLimitIncomplete cfg)"

text \<open>
  The sequential mode: the set rows of the selected exposures are deleted, their
  \<^verbatim>\<open>set_pk\<close> cleared, \<^verbatim>\<open>plate.sets\<close> emptied, and the plate updated without
  rearrangement.
\<close>

definition clearAssignments :: "world \<Rightarrow> exposure list \<Rightarrow> world" where
  "clearAssignments w exps =
     w\<lparr>setTable := filter (\<lambda>(p, label). Some p \<notin> (\<lambda>expo. set_pk_of w (exposure_no expo)) ` set exps)
                      (setTable w),
       set_pk_of := (\<lambda>n. if n \<in> exposure_no ` set exps then None else set_pk_of w n),
       plateSets := []\<rparr>"

text \<open>
  With the scope \<^verbatim>\<open>incomplete\<close>, the completion of the plate without its incomplete
  sets is added to every completion before the selection
  (\<^verbatim>\<open>scope.lower() == 'incomplete'\<close>), and the sets that are Good or Excellent are
  appended to the selected arrangement (\<^verbatim>\<open>scope == 'incomplete'\<close>).
\<close>

definition addPlateCompletion ::
  "config \<Rightarrow> env \<Rightarrow> scope \<Rightarrow> world \<Rightarrow> real list \<Rightarrow> real list" where
  "addPlateCompletion cfg ev sc w completions =
     (if sc \<noteq> ScopeAll
      then map (\<lambda>c. c + getPlateCompletion cfg ev False (plateSets w)) completions
      else completions)"

definition addGoodSets :: "env \<Rightarrow> scope \<Rightarrow> world \<Rightarrow> tset list \<Rightarrow> tset list" where
  "addGoodSets ev sc w optimalArrangement =
     (if sc = ScopeIncomplete
      then optimalArrangement @
             filter (\<lambda>ss. getStatus ev ss = Good \<or> getStatus ev ss = Excellent) (plateSets w)
      else optimalArrangement)"

text \<open>
  The part of \<^verbatim>\<open>rearrangeSets\<close> after the test of the permutation limit: enumeration,
  selection and application. The result carries \<^verbatim>\<open>permutationCounter\<close>, which the
  source logs, as its third component.
\<close>

definition enumerate ::
  "config \<Rightarrow> env \<Rightarrow> scope \<Rightarrow> world \<Rightarrow> py_error + loop_state" where
  "enumerate cfg ev sc w =
     rearrangeLoop cfg ev (validExposures ev sc w) (overridenSets w)
       (calculatePermutations (map ditherPosition (validExposures ev sc w)))
       (fold (memoOverridden ev) (overridenSets w) Map.empty, [], [], 0)"

definition enumerateAndApply ::
  "config \<Rightarrow> env \<Rightarrow> scope \<Rightarrow> real option \<Rightarrow> world \<Rightarrow> py_error + bool \<times> world \<times> nat" where
  "enumerateAndApply cfg ev sc LST w =
     (case enumerate cfg ev sc w of
        Inl e \<Rightarrow> Inl e
      | Inr (m, completions, goodArrangements, permutationCounter) \<Rightarrow>
          (case selectOpticalArrangement cfg ev goodArrangements
                  (addPlateCompletion cfg ev sc w completions) LST of
             Inl e \<Rightarrow> Inl e
           | Inr optimalArrangement \<Rightarrow>
               (case applyArrangement w (addGoodSets ev sc w optimalArrangement) of
                  Inl e \<Rightarrow> Inl e
                | Inr (result, w') \<Rightarrow> Inr (result, w', permutationCounter))))"

definition rearrangeSets ::
  "config \<Rightarrow> env \<Rightarrow> mode \<Rightarrow> scope \<Rightarrow> bool \<Rightarrow> real option \<Rightarrow> world
     \<Rightarrow> py_error + bool \<times> world \<times> nat" where
  "rearrangeSets cfg ev md sc force LST w =
     (if sc = ScopeInvalid then Inl TotoroError
      else if length (validExposures ev sc w) = 0 then Inr (True, w, 0)
      else if md = Sequential then
        (case updatePlateWith (\<lambda>w. Inr (True, w)) cfg ev False
                (clearAssignments w (validExposures ev sc w)) of
           Inl e \<Rightarrow> Inl e
         | Inr (result, w') \<Rightarrow> Inr (True, w', 0))
      else
        (case getNumberPermutations ev (map ditherPosition (validExposures ev sc w)) of
           Inl e \<Rightarrow> Inl e
         | Inr nPermutations \<Rightarrow>
             if nPermutations > permutationLimit cfg sc \<and> \<not> force then Inr (False, w, 0)
             else enumerateAndApply cfg ev sc LST w))"


section \<open>What the design says of selection and application\<close>

text \<open>
  The selection of the design (``Selection from the kept set''), written from its words
  for comparison with \<^verbatim>\<open>selectOpticalArrangement\<close>: position \<open>i\<close> is a best choice
  among \<open>arrangements\<close> with their \<open>completions\<close> when, if some completion exceeds 1, it
  has the maximum completion and no arrangement with the maximum completion has fewer
  sets; and otherwise, with the completions divided by the numbers of sets, it is in the
  top tier (at least \<open>setRearrangementFactor\<close> times the maximum) and no arrangement of
  the top tier has a smaller sum of \<open>(meanLST - LST) mod 24\<close> over its sets.
\<close>

definition normalised :: "tset list list \<Rightarrow> real list \<Rightarrow> nat \<Rightarrow> real" where
  "normalised arrangements completions j =
     completions ! j / real (length (arrangements ! j))"

definition topTier :: "config \<Rightarrow> tset list list \<Rightarrow> real list \<Rightarrow> nat \<Rightarrow> bool" where
  "topTier cfg arrangements completions j =
     (normalised arrangements completions j
        \<ge> Max (normalised arrangements completions ` {..<length arrangements})
            * setRearrangementFactor cfg)"

definition cumulatedLSTdiff :: "env \<Rightarrow> real option \<Rightarrow> tset list \<Rightarrow> real" where
  "cumulatedLSTdiff ev LST arrangement =
     sum_list (map (\<lambda>ss. pymod (setMeanLST ev ss
                                  - (case LST of None \<Rightarrow> siteLST ev | Some l \<Rightarrow> l)) 24)
                 arrangement)"

definition bestChoice ::
  "config \<Rightarrow> env \<Rightarrow> tset list list \<Rightarrow> real list \<Rightarrow> real option \<Rightarrow> nat \<Rightarrow> bool" where
  "bestChoice cfg ev arrangements completions LST i =
     (i < length arrangements \<and>
      (if \<exists>c\<in>set completions. c > 1
       then completions ! i = Max (set completions)
            \<and> (\<forall>j<length arrangements. completions ! j = Max (set completions) \<longrightarrow>
                   length (arrangements ! i) \<le> length (arrangements ! j))
       else topTier cfg arrangements completions i
            \<and> (\<forall>j<length arrangements. topTier cfg arrangements completions j \<longrightarrow>
                   cumulatedLSTdiff ev LST (arrangements ! i)
                     \<le> cumulatedLSTdiff ev LST (arrangements ! j))))"

text \<open>
  The application of the design (``applyArrangement''), written from its words for
  comparison with \<^verbatim>\<open>applyArrangement\<close>; the overridden sets of the arrangement are
  not recreated. If an exposure of the arrangement is mock, only the sets held in memory
  change. Otherwise the rows of the sets of the plate that are not overridden are deleted
  (\<open>keptRows\<close> are the others), as many consecutive unused identifiers as the
  arrangement has sets are allocated, a row is created for each set and its exposures are
  assigned to it (an exposure listed in several sets stays with the last one), and the
  sets of the plate are reloaded.
\<close>

definition keptRows :: "world \<Rightarrow> (int \<times> set_status option) list" where
  "keptRows w =
     filter (\<lambda>(p, label).
               \<not> (\<exists>ss\<in>set (plateSets w). \<not> hasOverrideLabel (status ss)
                     \<and> (\<exists>e\<in>set (totoroExposures ss). set_pk_of w (exposure_no e) = Some p)))
       (setTable w)"

definition exposureNumbers :: "tset \<Rightarrow> int set" where
  "exposureNumbers ss = exposure_no ` set (totoroExposures ss)"

definition arrangementApplied :: "world \<Rightarrow> tset list \<Rightarrow> world \<Rightarrow> bool" where
  "arrangementApplied w arrangement0 w' =
     (let arrangement = filter (\<lambda>ss. \<not> hasOverrideLabel (status ss)) arrangement0
      in scienceExposures w' = scienceExposures w
         \<and> (if \<exists>ss\<in>set arrangement. \<exists>e\<in>set (totoroExposures ss). isMock e
            then plateSets w' = arrangement \<and> setTable w' = setTable w
                 \<and> set_pk_of w' = set_pk_of w
            else \<exists>pks. length pks = length arrangement
                   \<and> (\<forall>i. Suc i < length pks \<longrightarrow> pks ! Suc i = pks ! i + 1)
                   \<and> set pks \<inter> fst ` set (keptRows w) = {}
                   \<and> setTable w' = keptRows w @ map (\<lambda>p. (p, None)) pks
                   \<and> (\<forall>i<length arrangement. \<forall>n\<in>exposureNumbers (arrangement ! i).
                          (\<forall>j<length arrangement. i < j \<longrightarrow>
                              n \<notin> exposureNumbers (arrangement ! j))
                          \<longrightarrow> set_pk_of w' n = Some (pks ! i))
                   \<and> (\<forall>n. (\<forall>ss\<in>set arrangement. n \<notin> exposureNumbers ss)
                          \<longrightarrow> set_pk_of w' n = set_pk_of w n)
                   \<and> plateSets w' = getMangaDBSets w'))"

section \<open>The timeline (\<^verbatim>\<open>timeline.py\<close>)\<close>

text \<open>
  A timeline holds its JD range, the intervals not yet allocated to plates and to
  exposures, and the plates scheduled (\<^verbatim>\<open>self._plates\<close>). Plates are objects that the
  scheduler mutates and shares between lists; the model names a plate by a number and
  keeps the plates in a store \<open>'s\<close>. NumPy arrays of intervals are lists of pairs.
\<close>

record timeline =
  startTime :: real
  endTime :: real
  unallocatedPlateWindow :: "(real \<times> real) list"
  unallocatedExps :: "(real \<times> real) list"
  scheduled :: "nat list"

text \<open>
  The collaborators outside \<^verbatim>\<open>timeline.py\<close>: \<^verbatim>\<open>logic.getOptimalPlate\<close>, which simulates
  exposures on the plates and returns a plate or \<^verbatim>\<open>None\<close>; \<^verbatim>\<open>plate.isComplete\<close>; the JD
  ranges of the exposures of a plate that \<^verbatim>\<open>allocateJDs\<close> does not skip; the UT range of a
  plate for an MJD, as JDs; and \<^verbatim>\<open>utils.removeInterval\<close>.
\<close>

record 's scheduling =
  getOptimalPlate :: "'s \<Rightarrow> nat list \<Rightarrow> (real \<times> real) list \<Rightarrow> bool \<Rightarrow> nat option \<times> 's"
  isComplete :: "'s \<Rightarrow> nat \<Rightarrow> bool"
  exposureJDs :: "'s \<Rightarrow> nat \<Rightarrow> (real \<times> real) list"
  getUTRange :: "'s \<Rightarrow> nat \<Rightarrow> int \<Rightarrow> real \<times> real"
  removeInterval :: "(real \<times> real) list \<Rightarrow> real \<times> real \<Rightarrow> (real \<times> real) list"

text \<open>\<^verbatim>\<open>remainingTime\<close>: the unallocated time in hours.\<close>

definition remainingTime :: "timeline \<Rightarrow> real" where
  "remainingTime tline =
     (if length (unallocatedExps tline) = 0 then 0
      else sum_list (map (\<lambda>interval. snd interval - fst interval) (unallocatedExps tline)) * 24)"

text \<open>\<^verbatim>\<open>int(x)\<close> of a float truncates towards zero.\<close>

definition py_int :: "real \<Rightarrow> int" where
  "py_int x = (if x \<ge> 0 then \<lfloor>x\<rfloor> else \<lceil>x\<rceil>)"

definition nominalMJD :: "timeline \<Rightarrow> int" where
  "nominalMJD tline = py_int ((startTime tline + endTime tline) / 2 - 2400000.5)"

definition allocatePlate :: "'s scheduling \<Rightarrow> 's \<Rightarrow> timeline \<Rightarrow> nat \<Rightarrow> timeline" where
  "allocatePlate sch st tline plate =
     (let tline1 = fold (\<lambda>jdRange t.
                   if snd jdRange \<ge> startTime t \<and> fst jdRange \<le> endTime t
                   then t\<lparr>unallocatedExps := removeInterval sch (unallocatedExps t) jdRange\<rparr>
                   else t)
                 (exposureJDs sch st plate) tline
      in tline1\<lparr>unallocatedPlateWindow :=
                removeInterval sch (unallocatedPlateWindow tline1)
                  (getUTRange sch st plate (nominalMJD tline))\<rparr>)"

definition allocateJDs :: "'s scheduling \<Rightarrow> 's \<Rightarrow> timeline \<Rightarrow> nat list \<Rightarrow> timeline" where
  "allocateJDs sch st tline plates = fold (\<lambda>plate t. allocatePlate sch st t plate) plates tline"

text \<open>
  The \<^verbatim>\<open>while\<close> loop of \<^verbatim>\<open>schedule\<close>. \<^verbatim>\<open>platesCopy.remove(optimalPlate)\<close> raises
  \<^verbatim>\<open>ValueError\<close> for a plate that is not in the list; otherwise the list gets shorter,
  which bounds the loop.
\<close>

function scheduleLoop ::
  "'s scheduling \<Rightarrow> bool \<Rightarrow> nat list \<Rightarrow> timeline \<times> 's \<times> nat list
     \<Rightarrow> py_error + timeline \<times> 's \<times> nat list" where
  "scheduleLoop sch prioritisePlugged plates (tline, st, platesCopy) =
     (if remainingTime tline > 0 \<and> length plates > 0 then
        (case getOptimalPlate sch st platesCopy (unallocatedExps tline) prioritisePlugged of
           (None, st') \<Rightarrow> Inr (tline, st', platesCopy)
         | (Some optimalPlate, st') \<Rightarrow>
             if optimalPlate \<in> set platesCopy
             then scheduleLoop sch prioritisePlugged plates
                    (allocateJDs sch st' (tline\<lparr>scheduled := scheduled tline @ [optimalPlate]\<rparr>)
                       [optimalPlate],
                     st', remove1 optimalPlate platesCopy)
             else Inl ValueError)
      else Inr (tline, st, platesCopy))"
  by pat_completeness auto
termination
  by (relation "measure (\<lambda>(sch, prioritisePlugged, plates, tline, st, platesCopy). length platesCopy)")
     (auto simp: length_remove1 intro: diff_less length_pos_if_in_set)

text \<open>
  \<^verbatim>\<open>Timeline.schedule\<close>, with \<open>plugger\<close> for \<^verbatim>\<open>mode == 'plugger'\<close>. It returns its
  boolean together with the timeline and the plates as it leaves them.
\<close>

definition schedule ::
  "'s scheduling \<Rightarrow> timeline \<Rightarrow> 's \<Rightarrow> nat list option \<Rightarrow> bool \<Rightarrow> bool
     \<Rightarrow> py_error + bool \<times> timeline \<times> 's" where
  "schedule sch tline0 st plates0 plugger force =
     (let tline = tline0\<lparr>scheduled := []\<rparr>;
          plates = (case plates0 of None \<Rightarrow> [] | Some ps \<Rightarrow> ps);
          platesCopy = plates;
          prioritisePlugged = plugger;
          plates = (if \<not> force then filter (\<lambda>plate. \<not> isComplete sch st plate) platesCopy
                    else plates)
      in (case scheduleLoop sch prioritisePlugged plates (tline, st, platesCopy) of
            Inl e \<Rightarrow> Inl e
          | Inr (tline1, st1, platesCopy1) \<Rightarrow>
              let tline2 = (if length platesCopy1 > 0 \<and> force
                         then (allocateJDs sch st1 tline1 plates)
                                \<lparr>scheduled := scheduled tline1 @ plates\<rparr>
                         else tline1)
              in Inr (remainingTime tline2 = 0, tline2, st1)))"

section \<open>Simulating and cleaning up plates (\<^verbatim>\<open>mangaLogicTimeline.py\<close>)\<close>

text \<open>
  For the simulation a plate is the list of its sets; the plates of a list are told apart
  by their position. The collaborators outside the sources given are parameters:
  \<^verbatim>\<open>plate.isComplete\<close>, the test
  \<^verbatim>\<open>utils.isPointInInterval(site.localSiderealTime(jd), plate.getLSTRange(), wrapAt=24)\<close>,
  \<^verbatim>\<open>plate.getAltitude\<close> at the sidereal time of the middle of the exposure, the effective
  exposure time \<^verbatim>\<open>expTime / efficiency\<close> and \<^verbatim>\<open>config[mode]['maxAltitude']\<close>.
\<close>

datatype placement = IntoSet nat | NewSet

text \<open>
  Modelled from the spec: \<^verbatim>\<open>Plate.addMockExposure\<close> is not part of the sources given. It
  returns \<^verbatim>\<open>False\<close> or the mock exposure that it created and assigned as a new exposure
  is assigned: appended to one set of the plate or as the only exposure of a new set at
  the end of \<^verbatim>\<open>plate.sets\<close>. Which exposure and where is the parameter
  \<open>addMockExposure\<close>; \<open>placeMock\<close> puts the exposure there, already carrying the tag
  \<^verbatim>\<open>_tmp = True\<close> that \<^verbatim>\<open>simulatePlates\<close> sets on the returned object.
\<close>

record simulation =
  plateComplete :: "nat \<Rightarrow> tset list \<Rightarrow> bool"
  inLSTWindow :: "nat \<Rightarrow> real \<Rightarrow> bool"
  altitudeAt :: "nat \<Rightarrow> real \<Rightarrow> real"
  addMockExposure :: "nat \<Rightarrow> tset list \<Rightarrow> real \<Rightarrow> real \<Rightarrow> (exposure \<times> placement) option"
  expTimeEff :: real
  maxAlt :: real

definition newTmpSet :: "exposure \<Rightarrow> tset" where
  "newTmpSet e = fromExposures [e\<lparr>tmp := True\<rparr>]"

definition placeMock :: "tset list \<Rightarrow> exposure \<Rightarrow> placement \<Rightarrow> tset list" where
  "placeMock setList e where_to =
     (case where_to of
        NewSet \<Rightarrow> setList @ [newTmpSet e]
      | IntoSet k \<Rightarrow>
          if k < length setList
          then setList[k := (setList ! k)\<lparr>totoroExposures :=
                               totoroExposures (setList ! k) @ [e\<lparr>tmp := True\<rparr>]\<rparr>]
          else setList @ [newTmpSet e])"

text \<open>
  The \<^verbatim>\<open>while jd < jdRange[1]\<close> loop of \<^verbatim>\<open>simulatePlates\<close> for one plate and one JD
  range. Nothing bounds it when the step is not positive, so it is a partial function:
  \<open>None\<close> stands for a loop that does not end. The result is the plate, \<^verbatim>\<open>stopPlate\<close>
  and \<^verbatim>\<open>observedFlag\<close>.
\<close>

partial_function (option) walkJD ::
  "simulation \<Rightarrow> nat \<Rightarrow> real \<Rightarrow> real \<Rightarrow> tset list \<Rightarrow> bool \<Rightarrow> (tset list \<times> bool \<times> bool) option" where
  "walkJD sim plate jdEnd jd setList observedFlag =
     (if jd < jdEnd then
        (if plateComplete sim plate setList then Some (setList, True, observedFlag)
         else if \<not> inLSTWindow sim plate jd
         then walkJD sim plate jdEnd (jd + expTimeEff sim / 86400) setList observedFlag
         else if altitudeAt sim plate (jd + expTimeEff sim / 2 / 86400) > maxAlt sim
         then Some (setList, True, observedFlag)
         else (case addMockExposure sim plate setList jd (expTimeEff sim) of
                 None \<Rightarrow> walkJD sim plate jdEnd (jd + expTimeEff sim / 86400) setList observedFlag
               | Some (e, where_to) \<Rightarrow>
                   walkJD sim plate jdEnd (jd + expTimeEff sim / 86400)
                     (placeMock setList e where_to) True))
      else Some (setList, False, observedFlag))"

fun overRanges ::
  "simulation \<Rightarrow> nat \<Rightarrow> (real \<times> real) list \<Rightarrow> tset list \<Rightarrow> bool \<Rightarrow> (tset list \<times> bool) option" where
  "overRanges sim plate [] setList observedFlag = Some (setList, observedFlag)"
| "overRanges sim plate (jdRange # rest) setList observedFlag =
     (case walkJD sim plate (snd jdRange) (fst jdRange) setList observedFlag of
        None \<Rightarrow> None
      | Some (setList', stopPlate, observedFlag') \<Rightarrow>
          if stopPlate then Some (setList', observedFlag')
          else overRanges sim plate rest setList' observedFlag')"

fun simulateFrom ::
  "simulation \<Rightarrow> (real \<times> real) list \<Rightarrow> nat \<Rightarrow> tset list list \<Rightarrow> bool
     \<Rightarrow> (tset list list \<times> bool) option" where
  "simulateFrom sim jdRanges i [] observedFlag = Some ([], observedFlag)"
| "simulateFrom sim jdRanges i (plate # rest) observedFlag =
     (case overRanges sim i jdRanges plate observedFlag of
        None \<Rightarrow> None
      | Some (plate', observedFlag') \<Rightarrow>
          (case simulateFrom sim jdRanges (Suc i) rest observedFlag' of
             None \<Rightarrow> None
           | Some (rest', observedFlag'') \<Rightarrow> Some (plate' # rest', observedFlag'')))"

definition simulatePlates ::
  "simulation \<Rightarrow> tset list list \<Rightarrow> (real \<times> real) list \<Rightarrow> (tset list list \<times> bool) option" where
  "simulatePlates sim plates jdRanges = simulateFrom sim jdRanges 0 plates False"

text \<open>
  \<^verbatim>\<open>cleanupPlates\<close>. For a plate that is not the optimum, the tagged exposures are
  filtered out of every set and the sets without exposures out of the plate.
\<close>

definition cleanLoser :: "tset list \<Rightarrow> tset list" where
  "cleanLoser setList =
     filter (\<lambda>s. length (totoroExposures s) > 0)
       (map (\<lambda>s. s\<lparr>totoroExposures := filter (\<lambda>expo. \<not> tmp expo) (totoroExposures s)\<rparr>) setList)"

text \<open>
  For the optimum, the tag is deleted from the exposures of \<^verbatim>\<open>plate.getValidExposures()\<close>
  (modelled from the spec: the valid exposures in the sets of the plate), and
  \<^verbatim>\<open>plate.sets.remove(set)\<close> runs inside the iteration over \<^verbatim>\<open>plate.sets\<close>: after a
  removal the iteration goes on behind the next element.
\<close>

function removeEmptyIter :: "nat \<Rightarrow> tset list \<Rightarrow> tset list" where
  "removeEmptyIter i setList =
     (if i < length setList then
        (if length (totoroExposures (setList ! i)) = 0
         then removeEmptyIter (Suc i) (take i setList @ drop (Suc i) setList)
         else removeEmptyIter (Suc i) setList)
      else setList)"
  by pat_completeness auto
termination
  by (relation "measure (\<lambda>(i, setList). length setList - i)") auto

definition cleanWinner :: "tset list \<Rightarrow> tset list" where
  "cleanWinner setList =
     removeEmptyIter 0
       (map (\<lambda>s. s\<lparr>totoroExposures :=
                    map (\<lambda>expo. if valid expo then expo\<lparr>tmp := False\<rparr> else expo)
                      (totoroExposures s)\<rparr>) setList)"

definition cleanupPlates :: "tset list list \<Rightarrow> nat option \<Rightarrow> tset list list" where
  "cleanupPlates plates optimumPlate =
     map (\<lambda>(i, plate). if optimumPlate = Some i then cleanWinner plate else cleanLoser plate)
       (zip [0..<length plates] plates)"

text \<open>
  A plate before a simulation as the simulator leaves plates: no exposure carries the tag
  and no set is empty.
\<close>

definition untagged :: "tset list \<Rightarrow> bool" where
  "untagged setList =
     (\<forall>s\<in>set setList. totoroExposures s \<noteq> [] \<and> (\<forall>expo\<in>set (totoroExposures s). \<not> tmp expo))"

text \<open>
  What a simulation may do to a plate: the exposures that carry the tag are valid, and no
  set is empty. \<open>clearTags\<close> is the plate with the tag deleted from every exposure.
\<close>

definition tagsValid :: "tset list \<Rightarrow> bool" where
  "tagsValid setList =
     (\<forall>s\<in>set setList. \<forall>expo\<in>set (totoroExposures s). tmp expo \<longrightarrow> valid expo)"

definition noEmptySet :: "tset list \<Rightarrow> bool" where
  "noEmptySet setList = (\<forall>s\<in>set setList. totoroExposures s \<noteq> [])"

definition clearTags :: "tset list \<Rightarrow> tset list" where
  "clearTags setList =
     map (\<lambda>s. s\<lparr>totoroExposures := map (\<lambda>expo. expo\<lparr>tmp := False\<rparr>) (totoroExposures s)\<rparr>)
       setList"

section \<open>Concrete inputs\<close>





text \<open>
  Scenario S5 of the design: a set of three exposures \<open>a\<close>, \<open>b\<close>, \<open>c\<close> in which \<open>b\<close> and
  \<open>c\<close> together are outside the windows of the ensemble metrics, so that the set and the
  subset \<open>(b, c)\<close> are Bad; the SN2 of \<open>(a, b)\<close> sums to 20, that of \<open>(a, c)\<close> to 30.
\<close>

definition s5_a :: exposure where "s5_a = mkExposure 1 (Some DitherN) (5 / 2)"
definition s5_b :: exposure where "s5_b = mkExposure 2 (Some DitherS) (5 / 2)"
definition s5_c :: exposure where "s5_c = mkExposure 3 (Some DitherE) 5"

definition s5_env :: env where
  "s5_env = specEnv thr0 True (\<lambda>exps. \<not> (s5_b \<in> set exps \<and> s5_c \<in> set exps))"

definition s5_good :: tset where
  "s5_good = fromExposures [mkExposure 4 (Some DitherN) 1, mkExposure 5 (Some DitherS) 1,
                            mkExposure 6 (Some DitherE) 1]"



text \<open>
  A plate during a simulation: a set with the label Override Good and three exposures of
  SN2 5 per band, and an incomplete set with a real exposure and a mock exposure of SN2 1
  per band.
\<close>

definition mockExposure :: "int \<Rightarrow> dither option \<Rightarrow> real \<Rightarrow> exposure" where
  "mockExposure n d s = (mkExposure n d s)\<lparr>isMock := True\<rparr>"

definition ov_overrideSet :: tset where
  "ov_overrideSet =
     \<lparr>pk = Some 1, status = Some OverrideGood,
      totoroExposures = [mkExposure 1 (Some DitherN) 5, mkExposure 2 (Some DitherS) 5,
                         mkExposure 3 (Some DitherE) 5]\<rparr>"

definition ov_incompleteSet :: tset where
  "ov_incompleteSet =
     \<lparr>pk = Some 2, status = None,
      totoroExposures = [mkExposure 4 (Some DitherN) 1, mockExposure 5 (Some DitherS) 1]\<rparr>"

definition ov_world :: world where
  "ov_world =
     \<lparr>setTable = [(1, Some OverrideGood), (2, None), (100, None), (101, None)],
      set_pk_of = (\<lambda>n. if n \<in> {1, 2, 3} then Some 1 else if n = 4 then Some 2 else None),
      scienceExposures = totoroExposures ov_overrideSet @ [mkExposure 4 (Some DitherN) 1],
      plateSets = [ov_overrideSet, ov_incompleteSet]\<rparr>"



text \<open>
  A night of two days for the timeline: plate \<open>p\<close> has one exposure over the JD range
  \<open>[p, p + 1]\<close>, the optimal plate is the first of the list, and intervals are subtracted
  as the design describes \<^verbatim>\<open>remove\<close> (up to two sub-intervals of each interval remain).
\<close>

definition cutInterval :: "(real \<times> real) list \<Rightarrow> real \<times> real \<Rightarrow> (real \<times> real) list" where
  "cutInterval base cutout =
     concat (map (\<lambda>(a, b).
                    if snd cutout \<le> a \<or> b \<le> fst cutout then [(a, b)]
                    else (if a < fst cutout then [(a, fst cutout)] else [])
                         @ (if snd cutout < b then [(snd cutout, b)] else []))
               base)"

definition night_scheduling :: "unit scheduling" where
  "night_scheduling =
     \<lparr>getOptimalPlate = (\<lambda>st ps iv pr. (case ps of [] \<Rightarrow> None | p # rest \<Rightarrow> Some p, st)),
      isComplete = (\<lambda>st p. False),
      exposureJDs = (\<lambda>st p. [(real p, real p + 1)]),
      getUTRange = (\<lambda>st p mjd. (0, 0)),
      removeInterval = cutInterval\<rparr>"

definition night :: timeline where
  "night = \<lparr>startTime = 0, endTime = 2, unallocatedPlateWindow = [(0, 2)],
            unallocatedExps = [(0, 2)], scheduled = []\<rparr>"

text \<open>
  A simulation over one JD range of one day with an effective exposure time of one day:
  every plate is observable and receives one mock exposure in its first set.
\<close>

definition sim0 :: simulation where
  "sim0 =
     \<lparr>plateComplete = (\<lambda>i setList. False),
      inLSTWindow = (\<lambda>i jd. True),
      altitudeAt = (\<lambda>i lst. 0),
      addMockExposure = (\<lambda>i setList jd t. Some (mockExposure (100 + int i) None 1, IntoSet 0)),
      expTimeEff = 86400,
      maxAlt = 90\<rparr>"

definition sim_plateA :: "tset list" where
  "sim_plateA = [\<lparr>pk = Some 1, status = None,
                  totoroExposures = [mkExposure 1 (Some DitherN) 1]\<rparr>]"

definition sim_plateB :: "tset list" where
  "sim_plateB = [\<lparr>pk = Some 2, status = None,
                  totoroExposures = [mkExposure 2 (Some DitherS) 1]\<rparr>]"

definition sim_plateC :: "tset list" where
  "sim_plateC = [\<lparr>pk = Some 2, status = None,
                  totoroExposures = [mkExposure 2 (Some DitherS) 1]\<rparr>,
                 \<lparr>pk = Some 3, status = None, totoroExposures = []\<rparr>]"

text \<open>
  A plate with 172 valid exposures that belong to no set, 171 of them at the same dither
  position: the largest group has 171 exposures, and \<^verbatim>\<open>factorial(171)\<close> is infinite in
  double precision.
\<close>

definition big_exposures :: "exposure list" where
  "big_exposures =
     map (\<lambda>n. mkExposure (int n) (Some DitherN) 1) [1..<172]
       @ [mkExposure 172 (Some DitherS) 1]"

definition big_world :: world where
  "big_world = \<lparr>setTable = [], set_pk_of = (\<lambda>n. None), scienceExposures = big_exposures,
                 plateSets = []\<rparr>"


text \<open>
  A plate with one incomplete set that holds one exposure, and a second, valid exposure
  that has no set yet.
\<close>

definition pair_world :: world where
  "pair_world =
     \<lparr>setTable = [(1, None), (100, None), (101, None)],
      set_pk_of = (\<lambda>n. if n = 1 then Some 1 else None),
      scienceExposures = [mkExposure 1 (Some DitherN) 1, mkExposure 2 (Some DitherS) 1],
      plateSets = [\<lparr>pk = Some 1, status = None,
                     totoroExposures = [mkExposure 1 (Some DitherN) 1]\<rparr>]\<rparr>"

section \<open>Properties of \<^verbatim>\<open>getConsecutiveSets\<close>\<close>

lemma sorted_adjacent_gap:
  assumes "sorted ys" "Suc k < length ys" "y \<in> set ys" "ys ! k < y"
  shows "ys ! Suc k \<le> (y::nat)"
proof -
  from assms(3) obtain j where j: "j < length ys" "ys ! j = y" by (auto simp: in_set_conv_nth)
  have "\<not> j \<le> k"
  proof
    assume "j \<le> k"
    then have "ys ! j \<le> ys ! k" using assms(1,2) by (simp add: sorted_nth_mono)
    with j assms(4) show False by simp
  qed
  then have "Suc k \<le> j" by simp
  then show ?thesis using assms(1) j by (auto simp: sorted_nth_mono)
qed

lemma diff_breaks_sorted: "sorted (0 # diff_breaks c @ [length c])"
  unfolding diff_breaks_def
  by (auto simp: sorted_append sorted_map sorted_wrt_map intro!: sorted_wrt_filter[where xs="[0..<n]" for n, simplified] )

lemma np_split_nth:
  assumes "g \<in> set (np_split c idxs)"
  shows "\<exists>k. k \<le> length idxs \<and> g = take ((idxs @ [length c]) ! k - (0 # idxs) ! k) (drop ((0 # idxs) ! k) c)"
proof -
  from assms obtain a b where ab: "(a, b) \<in> set (zip (0 # idxs) (idxs @ [length c]))" "g = take (b - a) (drop a c)"
    by (auto simp: np_split_def)
  from ab(1) obtain k where "k < Suc (length idxs)" "(0 # idxs) ! k = a" "(idxs @ [length c]) ! k = b"
    by (auto simp: in_set_zip)
  with ab(2) show ?thesis by (intro exI[of _ k]) auto
qed

lemma np_split_consecutive:
  assumes g: "g \<in> set (np_split c (diff_breaks c))" and i: "Suc i < length g"
  shows "g ! Suc i = g ! i + 1"
proof -
  let ?idxs = "diff_breaks c"
  let ?ys = "0 # ?idxs @ [length c]"
  from np_split_nth[OF g] obtain k where k: "k \<le> length ?idxs"
    and geq: "g = take ((?idxs @ [length c]) ! k - (0 # ?idxs) ! k) (drop ((0 # ?idxs) ! k) c)" by blast
  define a where "a = (0 # ?idxs) ! k"
  define b where "b = (?idxs @ [length c]) ! k"
  have "?ys = (0 # ?idxs) @ [length c]" by simp
  then have "?ys ! k = (0 # ?idxs) ! k" using k by (simp only: nth_append) simp
  then have a: "a = ?ys ! k" by (simp add: a_def)
  have b: "b = ?ys ! Suc k" by (simp add: b_def)
  have gl: "length g = min (b - a) (length c - a)" using geq by (simp add: a_def b_def)
  have pos: "a + Suc i < b" "a + Suc i < length c" using i gl by auto
  have g': "g = take (b - a) (drop a c)" using geq by (simp add: a_def b_def)
  have gi: "g ! i = c ! (a + i)" "g ! Suc i = c ! (a + Suc i)"
    using pos unfolding g' by (simp_all add: nth_drop)
  have "Suc (a + i) \<notin> set ?idxs"
  proof
    assume m: "Suc (a + i) \<in> set ?idxs"
    then have "Suc (a + i) \<in> set ?ys" by simp
    moreover have "?ys ! k < Suc (a + i)" using a by simp
    moreover have "Suc k < length ?ys" using k by simp
    ultimately have "?ys ! Suc k \<le> Suc (a + i)"
      using sorted_adjacent_gap[OF diff_breaks_sorted] by blast
    with b pos show False by simp
  qed
  moreover have "a + i < length c - 1" using pos by simp
  ultimately have "c ! Suc (a + i) - c ! (a + i) = 1"
    by (auto simp: diff_breaks_def)
  with gi show ?thesis by simp
qed

lemma np_split_subset:
  assumes "g \<in> set (np_split c idxs)" shows "set g \<subseteq> set c"
proof -
  from np_split_nth[OF assms] obtain k where
    "g = take ((idxs @ [length c]) ! k - (0 # idxs) ! k) (drop ((0 # idxs) ! k) c)" by blast
  then show ?thesis by (metis set_take_subset set_drop_subset subset_trans)
qed

lemma consecutive_nth:
  assumes "\<And>i. Suc i < length g \<Longrightarrow> g ! Suc i = g ! i + (1::int)" "i < length g"
  shows "g ! i = g ! 0 + int i"
  using assms(2)
proof (induction i)
  case 0 show ?case by simp
next
  case (Suc i)
  then show ?case using assms(1)[of i] by simp
qed

lemma sorted_last_Max:
  assumes "sorted ys" "ys \<noteq> []" shows "last ys = Max (set (ys::int list))"
proof -
  have "Max (set ys) = last ys"
  proof (rule Max_eqI)
    show "finite (set ys)" by simp
    show "last ys \<in> set ys" using last_in_set[OF assms(2)] .
    fix y assume "y \<in> set ys"
    then obtain j where j: "j < length ys" "ys ! j = y" by (auto simp: in_set_conv_nth)
    then have "ys ! j \<le> ys ! (length ys - 1)"
      using assms(1) by (intro sorted_nth_mono) auto
    then show "y \<le> last ys" using j assms(2) by (simp add: last_conv_nth)
  qed
  then show ?thesis by simp
qed

lemma last_sort_Max: "xs \<noteq> [] \<Longrightarrow> last (sort xs) = Max (set (xs::int list))"
  using sorted_last_Max[of "sort xs"] by (metis length_0_conv length_sort set_sort sorted_sort)

text \<open>
  With at least two rows in the set table, \<^verbatim>\<open>getConsecutiveSets\<close> returns \<open>n\<close>
  identifiers, each one more than the one before, none of them in use; and when no run of
  \<open>n\<close> unused identifiers exists below the largest one in use, they start right after it.
\<close>

lemma getConsecutiveSets_contract:
  assumes rows: "2 \<le> length rows" and n: "0 < n"
  shows "\<exists>pks. getConsecutiveSets rows n = Inr pks \<and> length pks = n
      \<and> (\<forall>i. Suc i < n \<longrightarrow> pks ! Suc i = pks ! i + 1)
      \<and> set pks \<inter> set rows = {}
      \<and> ((\<nexists>a. 1 \<le> a \<and> a + int n - 1 \<le> Max (set rows)
                 \<and> (\<forall>i\<in>{a..a + int n - 1}. i \<notin> set rows))
           \<longrightarrow> pks ! 0 = Max (set rows) + 1)"
proof -
  define M where "M = Max (set rows)"
  define c where "c = filter (\<lambda>ii. ii \<notin> set rows) [1..M]"
  have ne: "rows \<noteq> []" using rows by auto
  have sq: "squeeze_tolist rows = PyList rows"
    using rows by (cases rows; cases "tl rows") (auto simp: squeeze_tolist_def)
  have lastM: "last (sort rows) = M" using ne by (simp add: last_sort_Max M_def)
  have sne: "sort rows \<noteq> []" using ne by (metis length_0_conv length_sort)
  have unfold: "getConsecutiveSets rows n =
      (case find (\<lambda>split. length split \<ge> n) (np_split c (diff_breaks c)) of
         Some split \<Rightarrow> Inr (take n split) | None \<Rightarrow> Inr [M + 1 .. M + int n])"
    using sne by (simp add: getConsecutiveSets_def sq py_sorted_def lastM c_def Let_def split: option.split)
  show ?thesis
  proof (cases "find (\<lambda>split. length split \<ge> n) (np_split c (diff_breaks c))")
    case None
    have "\<And>x. x \<in> set rows \<Longrightarrow> x \<le> M" by (simp add: M_def)
    then have "set [M + 1 .. M + int n] \<inter> set rows = {}" by fastforce
    moreover have "[M + 1 .. M + int n] ! 0 = M + 1" using n by simp
    moreover have "\<forall>i. Suc i < n \<longrightarrow> [M + 1 .. M + int n] ! Suc i = [M + 1 .. M + int n] ! i + 1"
      by simp
    ultimately show ?thesis unfolding unfold None M_def[symmetric] by simp
  next
    case (Some g)
    then have g: "g \<in> set (np_split c (diff_breaks c))" and len: "n \<le> length g"
      by (auto simp: find_Some_iff)
    have cons: "\<And>i. Suc i < length g \<Longrightarrow> g ! Suc i = g ! i + 1"
      using np_split_consecutive[OF g] by simp
    have sub: "set g \<subseteq> set c" using np_split_subset[OF g] .
    have nth: "\<And>i. i < n \<Longrightarrow> g ! i = g ! 0 + int i"
      using consecutive_nth[of g] cons len by simp
    have inc: "\<And>i. i < n \<Longrightarrow> g ! i \<in> set c" using sub len by (auto simp: subset_eq)
    have "set (take n g) \<inter> set rows = {}"
      using sub set_take_subset[of n g] by (auto simp: c_def)
    moreover have "\<forall>i. Suc i < n \<longrightarrow> take n g ! Suc i = take n g ! i + 1"
      using cons len by simp
    moreover have "\<exists>a. 1 \<le> a \<and> a + int n - 1 \<le> M \<and> (\<forall>i\<in>{a..a + int n - 1}. i \<notin> set rows)"
    proof (intro exI[of _ "g ! 0"] conjI ballI)
      show "1 \<le> g ! 0" using inc[of 0] n by (simp add: c_def)
      have "g ! (n - 1) \<le> M" using inc[of "n - 1"] n by (simp add: c_def)
      moreover have "g ! (n - 1) = g ! 0 + int (n - 1)" using nth[of "n - 1"] n by simp
      ultimately show "g ! 0 + int n - 1 \<le> M" using n by (simp add: of_nat_diff)
      fix i assume "i \<in> {g ! 0..g ! 0 + int n - 1}"
      then obtain k where k: "k < n" "g ! 0 + int k = i"
        by (intro that[of "nat (i - g ! 0)"]) auto
      then have "g ! k = i" using nth[of k] by simp
      then show "i \<notin> set rows" using inc[of k] k(1) by (auto simp: c_def)
    qed
    ultimately show ?thesis unfolding unfold Some M_def[symmetric] using len by simp
  qed
qed

text \<open>
  Claim C9 (consecutive-identifier contract of \<^verbatim>\<open>getConsecutiveSets\<close>). The claim
  covers every non-empty collection of existing identifiers. When the set table holds
  exactly one row, \<^verbatim>\<open>np.array(setPKs).squeeze().tolist()\<close> yields a bare integer, and
  \<^verbatim>\<open>sorted\<close> of it raises \<^verbatim>\<open>TypeError\<close>: no identifier is returned, whatever
  the single identifier and the number of identifiers asked for. (With two rows or more the
  contract holds: \<open>getConsecutiveSets_contract\<close>.)
\<close>

theorem getConsecutiveSets_single_row:
  "getConsecutiveSets [p] nSets = Inl TypeError"
  by (simp add: getConsecutiveSets_def squeeze_tolist_def py_sorted_def)

section \<open>Properties of \<^verbatim>\<open>getOptimalSet\<close>\<close>





lemma first_index_less:
  assumes "\<exists>x\<in>set xs. P x"
  shows "first_index P xs < length xs" "P (xs ! first_index P xs)"
proof -
  show l: "first_index P xs < length xs"
    unfolding first_index_def using assms by (induction xs) auto
  show "P (xs ! first_index P xs)"
    using nth_length_takeWhile[of "\<lambda>x. \<not> P x" xs] l by (simp add: first_index_def)
qed

lemma list_max_Max:
  assumes "xs \<noteq> []" shows "list_max xs = Max (set xs)"
proof (cases xs)
  case Nil
  with assms show ?thesis by simp
next
  case (Cons a l)
  show ?thesis unfolding Cons list_max_def list.sel Max.set_eq_fold ..
qed

lemma argmax_props:
  assumes "xs \<noteq> []"
  shows "argmax xs < length xs" "\<forall>x\<in>set xs. x \<le> xs ! argmax xs"
proof -
  have m: "list_max xs \<in> set xs" using assms by (simp add: list_max_Max)
  then have e: "\<exists>x\<in>set xs. x = list_max xs" by blast
  show "argmax xs < length xs" unfolding argmax_def using first_index_less(1)[OF e] .
  have "xs ! argmax xs = list_max xs" unfolding argmax_def using first_index_less(2)[OF e] .
  then show "\<forall>x\<in>set xs. x \<le> xs ! argmax xs" using assms by (simp add: list_max_Max)
qed




section \<open>Properties of the permutation generator\<close>





















section \<open>Properties of \<^verbatim>\<open>fixBadSets\<close>\<close>

lemma fold_remove1_filter:
  assumes "\<forall>y\<in>set pre. \<not> P y"
  shows "fold remove1 (filter P xs) (pre @ xs) = pre @ filter (\<lambda>x. \<not> P x) xs"
  using assms
proof (induction xs arbitrary: pre)
  case Nil
  then show ?case by simp
next
  case (Cons x xs)
  show ?case
  proof (cases "P x")
    case True
    then have "x \<notin> set pre" using Cons.prems by blast
    then have "remove1 x (pre @ x # xs) = pre @ xs" by (simp add: remove1_append)
    with True Cons.IH[OF Cons.prems] show ?thesis by simp
  next
    case False
    then have "\<forall>y\<in>set (pre @ [x]). \<not> P y" using Cons.prems by simp
    from Cons.IH[OF this] False show ?thesis by simp
  qed
qed

lemma repairSet_two:
  "totoroExposures ss = [a, b] \<Longrightarrow> repairSet ev ss = Inr (repairBadSet ev (totoroExposures ss))"
  by (simp add: repairSet_def)

lemma repairSet_three:
  assumes "totoroExposures ss = [a, b, c]" "distinct [a, b, c]"
  shows "repairSet ev ss = Inr (repairBadSet ev (totoroExposures ss))"
proof -
  let ?subsets = "[([a, b], c), ([a, c], b), ([b, c], a)]"
  let ?nonBad = "filter (\<lambda>(pair, other). getStatus ev (fromExposures pair) \<noteq> Bad) ?subsets"
  let ?validSets = "filter (\<lambda>testSet. getStatus ev testSet \<noteq> Bad)
                   (map (\<lambda>(ii, jj). fromExposures [[a, b, c] ! ii, [a, b, c] ! jj])
                      [(0, 1), (0, 2), (1, 2)])"
  have vs: "?validSets = map (\<lambda>(pair, other). fromExposures pair) ?nonBad"
    by (simp add: filter_map comp_def)
  have sn: "map (\<lambda>xx. nansum4 (getSN2Array ev xx)) ?validSets
      = map (\<lambda>(pair, other). nansum4 (getSN2Array ev (fromExposures pair))) ?nonBad"
    unfolding vs by (simp add: comp_def case_prod_beta)
  show ?thesis
  proof (cases "?nonBad = []")
    case True
    then have "?validSets = []" unfolding vs by simp
    then show ?thesis using True assms(1) by (simp add: repairSet_def Let_def del: filter.simps)
  next
    case False
    define i where "i = argmax (map (\<lambda>(pair, other). nansum4 (getSN2Array ev (fromExposures pair))) ?nonBad)"
    have il: "i < length ?nonBad"
      unfolding i_def using argmax_props(1)[of "map (\<lambda>(pair, other). nansum4 (getSN2Array ev (fromExposures pair))) ?nonBad"] False
      by simp
    obtain p r where pr: "?nonBad ! i = (p, r)" by (cases "?nonBad ! i")
    have "(p, r) \<in> set ?nonBad" using il pr by (metis nth_mem)
    then have "(p, r) \<in> set ?subsets" by (metis (no_types, lifting) filter_is_subset subsetD)
    then have miss: "filter (\<lambda>expo. expo \<notin> set p) [a, b, c] = [r]"
      using assms(2) by auto
    have vne: "?validSets \<noteq> []" unfolding vs using False by simp
    have mx: "?validSets ! argmax (map (\<lambda>xx. nansum4 (getSN2Array ev xx)) ?validSets) = fromExposures p"
      unfolding sn i_def[symmetric] unfolding vs using il pr by simp
    have lhs: "repairSet ev ss = Inr [fromExposures p, fromExposures [r]]"
      using vne mx miss assms(1)
      by (simp add: repairSet_def Let_def fromExposures_def del: filter.simps) 
    have rhs: "repairBadSet ev (totoroExposures ss) = [fromExposures p, fromExposures [r]]"
      using False pr unfolding assms(1) by (simp add: Let_def i_def[symmetric] del: filter.simps)
    show ?thesis unfolding lhs rhs ..
  qed
qed


lemma fixLoop_char:
  assumes "\<forall>ss\<in>set xs. getStatus ev ss = Bad \<longrightarrow>
             (length (totoroExposures ss) = 2 \<or> length (totoroExposures ss) = 3)
             \<and> distinct (totoroExposures ss)"
  shows "fixLoop ev xs R A =
     Inr (R @ filter (\<lambda>ss. getStatus ev ss = Bad) xs,
          A @ concat (map (\<lambda>ss. repairBadSet ev (totoroExposures ss))
                       (filter (\<lambda>ss. getStatus ev ss = Bad) xs)))"
  using assms
proof (induction xs arbitrary: R A)
  case Nil
  show ?case by simp
next
  case (Cons ss rest)
  show ?case
  proof (cases "getStatus ev ss = Bad")
    case False
    with Cons show ?thesis by simp
  next
    case True
    with Cons.prems have len: "length (totoroExposures ss) = 2 \<or> length (totoroExposures ss) = 3"
      and d: "distinct (totoroExposures ss)" by auto
    have rep: "repairSet ev ss = Inr (repairBadSet ev (totoroExposures ss))"
    proof -
      from len show ?thesis
      proof
        assume "length (totoroExposures ss) = 2"
        then obtain a b where "totoroExposures ss = [a, b]"
          by (cases "totoroExposures ss"; cases "tl (totoroExposures ss)") auto
        then show ?thesis by (rule repairSet_two)
      next
        assume "length (totoroExposures ss) = 3"
        then obtain a b c where abc: "totoroExposures ss = [a, b, c]"
          by (cases "totoroExposures ss"; cases "tl (totoroExposures ss)";
              cases "tl (tl (totoroExposures ss))") auto
        with d have "distinct [a, b, c]" by simp
        with abc show ?thesis by (rule repairSet_three)
      qed
    qed
    have "\<forall>ss\<in>set rest. getStatus ev ss = Bad \<longrightarrow>
             (length (totoroExposures ss) = 2 \<or> length (totoroExposures ss) = 3)
             \<and> distinct (totoroExposures ss)" using Cons.prems by simp
    from Cons.IH[OF this] True rep show ?thesis by simp
  qed
qed

lemma fixLoop_error:
  assumes "\<forall>ss\<in>set xs. getStatus ev ss = Bad \<longrightarrow>
             length (totoroExposures ss) \<in> {1, 2, 3} \<and> distinct (totoroExposures ss)"
    and "\<exists>ss\<in>set xs. getStatus ev ss = Bad \<and> length (totoroExposures ss) = 1"
  shows "fixLoop ev xs R A = Inl TotoroError"
  using assms
proof (induction xs arbitrary: R A)
  case Nil
  then show ?case by simp
next
  case (Cons ss rest)
  show ?case
  proof (cases "getStatus ev ss = Bad")
    case False
    with Cons.prems have "\<exists>ss\<in>set rest. getStatus ev ss = Bad \<and> length (totoroExposures ss) = 1"
      by auto
    with Cons False show ?thesis by simp
  next
    case True
    show ?thesis
    proof (cases "length (totoroExposures ss) = 1")
      case one: True
      then have "repairSet ev ss = Inl TotoroError" by (simp add: repairSet_def)
      with True show ?thesis by simp
    next
      case False
      with True Cons.prems have len: "length (totoroExposures ss) = 2 \<or> length (totoroExposures ss) = 3"
        and d: "distinct (totoroExposures ss)" by auto
      have "\<forall>s\<in>set [ss]. getStatus ev s = Bad \<longrightarrow>
             (length (totoroExposures s) = 2 \<or> length (totoroExposures s) = 3)
             \<and> distinct (totoroExposures s)" using len d by simp
      from fixLoop_char[OF this, of "[]" "[]"] True
      obtain new where rep: "repairSet ev ss = Inr new"
        by (cases "repairSet ev ss") auto
      have "\<exists>ss\<in>set rest. getStatus ev ss = Bad \<and> length (totoroExposures ss) = 1"
        using Cons.prems False by auto
      moreover have "\<forall>ss\<in>set rest. getStatus ev ss = Bad \<longrightarrow>
             length (totoroExposures ss) \<in> {1, 2, 3} \<and> distinct (totoroExposures ss)"
        using Cons.prems by simp
      ultimately show ?thesis using Cons.IH True rep by simp
    qed
  qed
qed

text \<open>
  Claim C5 (\<^verbatim>\<open>fixBadSets\<close>). For a list of sets whose Bad sets have one, two or three
  exposures, all different: if a Bad set has exactly one exposure the call raises
  \<^verbatim>\<open>TotoroError\<close>; otherwise the result is the list of the sets that are not Bad,
  unchanged and in their order, followed by the repair of every Bad set as the design
  words it (\<open>repairBadSet\<close>): two singleton sets for two exposures; for three
  exposures the 2-exposure subset that is not Bad and has the largest summed SN2 together
  with the singleton of the remaining exposure, or three singletons when every
  2-exposure subset is Bad.
\<close>

theorem fixBadSets_repairs:
  assumes "\<forall>ss\<in>set setList. getStatus ev ss = Bad \<longrightarrow>
             length (totoroExposures ss) \<in> {1, 2, 3} \<and> distinct (totoroExposures ss)"
  shows "fixBadSets ev setList =
     (if \<exists>ss\<in>set setList. getStatus ev ss = Bad \<and> length (totoroExposures ss) = 1
      then Inl TotoroError
      else Inr (filter (\<lambda>ss. getStatus ev ss \<noteq> Bad) setList @
                concat (map (\<lambda>ss. repairBadSet ev (totoroExposures ss))
                          (filter (\<lambda>ss. getStatus ev ss = Bad) setList))))"
proof (cases "\<exists>ss\<in>set setList. getStatus ev ss = Bad \<and> length (totoroExposures ss) = 1")
  case True
  with fixLoop_error[OF assms True, of "[]" "[]"] show ?thesis by (simp add: fixBadSets_def)
next
  case False
  with assms have "\<forall>ss\<in>set setList. getStatus ev ss = Bad \<longrightarrow>
             (length (totoroExposures ss) = 2 \<or> length (totoroExposures ss) = 3)
             \<and> distinct (totoroExposures ss)" by auto
  from fixLoop_char[OF this, of "[]" "[]"]
  have "fixBadSets ev setList =
      Inr (fold remove1 (filter (\<lambda>ss. getStatus ev ss = Bad) setList) setList @
           concat (map (\<lambda>ss. repairBadSet ev (totoroExposures ss))
                     (filter (\<lambda>ss. getStatus ev ss = Bad) setList)))"
    by (simp add: fixBadSets_def)
  moreover have "fold remove1 (filter (\<lambda>ss. getStatus ev ss = Bad) setList) setList
      = filter (\<lambda>ss. getStatus ev ss \<noteq> Bad) setList"
    using fold_remove1_filter[of "[]" "\<lambda>ss. getStatus ev ss = Bad" setList] by simp
  ultimately show ?thesis using False by simp
qed

lemmas eval_fixbad =
  s5_env_def specEnv_def specStatus_def thr0_def sumBands_def exceeds_def specSN2Array_def
  mkExposure_def fromExposures_def s5_a_def s5_b_def s5_c_def s5_good_def nansum4_def nan0_def
  argmax_def first_index_def list_max_def

lemma s5_statuses:
  "getStatus s5_env (fromExposures [s5_a, s5_b, s5_c]) = Bad"
  "getStatus s5_env s5_good = Good"
  "getStatus s5_env (fromExposures [s5_a, s5_b]) = Incomplete"
  "getStatus s5_env (fromExposures [s5_a, s5_c]) = Incomplete"
  "getStatus s5_env (fromExposures [s5_b, s5_c]) = Bad"
  by (simp_all add: eval_fixbad)

theorem fixBadSets_repairs_witness:
  "fixBadSets s5_env [fromExposures [s5_a, s5_b, s5_c], s5_good]
     = Inr [s5_good, fromExposures [s5_a, s5_c], fromExposures [s5_b]]"
proof -
  let ?l = "[fromExposures [s5_a, s5_b, s5_c], s5_good]"
  have d: "distinct [s5_a, s5_b, s5_c]" by (simp add: s5_a_def s5_b_def s5_c_def mkExposure_def)
  have h: "\<forall>ss\<in>set ?l. getStatus s5_env ss = Bad \<longrightarrow>
             length (totoroExposures ss) \<in> {1, 2, 3} \<and> distinct (totoroExposures ss)"
    using d by (simp add: s5_statuses) (simp add: fromExposures_def)
  have r: "repairBadSet s5_env [s5_a, s5_b, s5_c] = [fromExposures [s5_a, s5_c], fromExposures [s5_b]]"
    by (simp add: s5_statuses Let_def) (simp add: eval_fixbad)
  have te: "totoroExposures (fromExposures [s5_a, s5_b, s5_c]) = [s5_a, s5_b, s5_c]"
    by (simp add: fromExposures_def)
  show ?thesis
    unfolding fixBadSets_repairs[OF h]
    by (simp add: s5_statuses te r del: repairBadSet.simps)
qed

section \<open>Selection and application of an arrangement\<close>

lemma list_min_Min:
  assumes "xs \<noteq> []" shows "list_min xs = Min (set xs)"
proof (cases xs)
  case Nil
  with assms show ?thesis by simp
next
  case (Cons a l)
  show ?thesis unfolding Cons list_min_def list.sel Min.set_eq_fold ..
qed

lemma argmin_props:
  assumes "xs \<noteq> []"
  shows "argmin xs < length xs" "\<forall>x\<in>set xs. xs ! argmin xs \<le> x"
proof -
  have m: "list_min xs \<in> set xs" using assms by (simp add: list_min_Min)
  then have e: "\<exists>x\<in>set xs. x = list_min xs" by blast
  show "argmin xs < length xs" unfolding argmin_def using first_index_less(1)[OF e] .
  have "xs ! argmin xs = list_min xs" unfolding argmin_def using first_index_less(2)[OF e] .
  then show "\<forall>x\<in>set xs. xs ! argmin xs \<le> x" using assms by (simp add: list_min_Min)
qed

lemma zip_nth_map:
  assumes "length xs = length ys"
  shows "zip xs ys = map (\<lambda>j. (xs ! j, ys ! j)) [0..<length xs]"
  using assms by (intro nth_equalityI) auto

lemma masked_nth:
  assumes "length arrs = length cs"
  shows "masked arrs cs P = map ((!) arrs) (filter (\<lambda>j. P (cs ! j)) [0..<length arrs])"
  unfolding masked_def zip_nth_map[OF assms] by (simp add: filter_map o_def)

lemma masked_pick:
  assumes len: "length arrs = length cs"
    and k: "k < length (masked arrs cs P)"
    and best: "\<forall>x\<in>set (masked arrs cs P). f (masked arrs cs P ! k) \<le> f x"
  shows "\<exists>i<length arrs. masked arrs cs P ! k = arrs ! i \<and> P (cs ! i)
           \<and> (\<forall>j<length arrs. P (cs ! j) \<longrightarrow> f (arrs ! i) \<le> f (arrs ! j))"
proof -
  let ?J = "filter (\<lambda>j. P (cs ! j)) [0..<length arrs]"
  have m: "masked arrs cs P = map ((!) arrs) ?J" by (rule masked_nth[OF len])
  have kJ: "k < length ?J" using k unfolding m by simp
  define i where "i = ?J ! k"
  have "i \<in> set ?J" unfolding i_def using kJ by (rule nth_mem)
  then have i: "i < length arrs" "P (cs ! i)" by auto
  have e: "masked arrs cs P ! k = arrs ! i" unfolding m i_def using kJ by simp
  have "f (arrs ! i) \<le> f (arrs ! j)" if "j < length arrs" "P (cs ! j)" for j
  proof -
    have "j \<in> set ?J" using that by simp
    then have "arrs ! j \<in> set (masked arrs cs P)" unfolding m by simp
    with best show ?thesis unfolding e by blast
  qed
  with i e show ?thesis by blast
qed

text \<open>the element that the source picks from a masked list: the only one, or the argmin\<close>

lemma pick_least:
  assumes "xs \<noteq> []"
  shows "\<forall>x\<in>set xs. f (xs ! (if length xs = 1 then 0 else argmin (map f xs))) \<le> f x"
    and "(if length xs = 1 then 0 else argmin (map f xs)) < length xs"
proof -
  show "(if length xs = 1 then 0 else argmin (map f xs)) < length xs"
    using argmin_props(1)[of "map f xs"] assms by auto
  show "\<forall>x\<in>set xs. f (xs ! (if length xs = 1 then 0 else argmin (map f xs))) \<le> f x"
  proof (cases "length xs = 1")
    case True
    then obtain a where "xs = [a]" by (cases xs) auto
    then show ?thesis by simp
  next
    case False
    have l: "argmin (map f xs) < length xs" using argmin_props(1)[of "map f xs"] assms by simp
    have "\<forall>y\<in>set (map f xs). map f xs ! argmin (map f xs) \<le> y"
      using argmin_props(2)[of "map f xs"] assms by simp
    then show ?thesis using False l by simp
  qed
qed

lemma selectOpticalArrangement_best:
  assumes len: "length arrangements = length completions"
    and sel: "selectOpticalArrangement cfg ev arrangements completions LST = Inr a"
  shows "\<exists>i. a = arrangements ! i \<and> bestChoice cfg ev arrangements completions LST i"
proof -
  have ne: "completions \<noteq> []" using sel by (auto simp: selectOpticalArrangement_def)
  show ?thesis
  proof (cases "\<exists>c\<in>set completions. c > 1")
    case True
    let ?P = "\<lambda>c. c = list_max completions"
    let ?complete = "masked arrangements completions ?P"
    let ?f = "\<lambda>sets::tset list. real (length sets)"
    let ?k = "if length ?complete = 1 then 0 else argmin (map ?f ?complete)"
    have cne: "?complete \<noteq> []" using sel True
      by (auto simp: selectOpticalArrangement_def Let_def split: if_splits)
    have a: "a = ?complete ! ?k" using sel True
      by (auto simp: selectOpticalArrangement_def Let_def split: if_splits)
    from masked_pick[OF len pick_least(2)[OF cne] pick_least(1)[OF cne], of ?f]
    obtain i where i: "i < length arrangements" "?complete ! ?k = arrangements ! i"
      "completions ! i = list_max completions"
      "\<forall>j<length arrangements. completions ! j = list_max completions \<longrightarrow>
           ?f (arrangements ! i) \<le> ?f (arrangements ! j)" by blast
    have "bestChoice cfg ev arrangements completions LST i"
      unfolding bestChoice_def using True i(1,3,4) by (simp add: list_max_Max[OF ne])
    with a i(2) show ?thesis by auto
  next
    case False
    let ?nSets = "map (\<lambda>sets. real (length sets)) arrangements"
    let ?cs = "map (\<lambda>(c, n). c / n) (zip completions ?nSets)"
    let ?min = "list_max ?cs * setRearrangementFactor cfg"
    let ?P = "\<lambda>c. c \<ge> ?min"
    let ?top = "masked arrangements ?cs ?P"
    let ?f = "cumulatedLSTdiff ev LST"
    let ?k = "if length ?top = 1 then 0 else argmin (map ?f ?top)"
    have lcs: "length arrangements = length ?cs" using len by simp
    have csn: "?cs ! j = normalised arrangements completions j" if "j < length arrangements" for j
      using that len by (simp add: normalised_def)
    have csne: "?cs \<noteq> []" using ne len by auto
    have "set ?cs = normalised arrangements completions ` {..<length arrangements}"
    proof -
      have "?cs = map (normalised arrangements completions) [0..<length arrangements]"
        using lcs csn by (intro nth_equalityI) auto
      then have "set ?cs = normalised arrangements completions ` set [0..<length arrangements]"
        by (metis set_map)
      then show ?thesis by (simp add: lessThan_atLeast0)
    qed
    then have mx: "list_max ?cs = Max (normalised arrangements completions ` {..<length arrangements})"
      using list_max_Max[OF csne] by simp
    have tne: "?top \<noteq> []" using sel False
      by (auto simp: selectOpticalArrangement_def Let_def split: if_splits)
    have cl: "(\<lambda>arrangement. sum_list (map (\<lambda>ss. pymod (setMeanLST ev ss
                  - (case LST of None \<Rightarrow> siteLST ev | Some l \<Rightarrow> l)) 24) arrangement))
               = cumulatedLSTdiff ev LST"
      by (rule ext) (simp add: cumulatedLSTdiff_def)
    have a: "a = ?top ! ?k" using sel False
      by (auto simp: selectOpticalArrangement_def Let_def cl split: if_splits)
    from masked_pick[OF lcs pick_least(2)[OF tne] pick_least(1)[OF tne], of ?f]
    obtain i where i: "i < length arrangements" "?top ! ?k = arrangements ! i"
      "?cs ! i \<ge> ?min"
      "\<forall>j<length arrangements. ?cs ! j \<ge> ?min \<longrightarrow> ?f (arrangements ! i) \<le> ?f (arrangements ! j)"
      by blast
    have ti: "topTier cfg arrangements completions i"
      using i(3) unfolding topTier_def csn[OF i(1)] mx .
    have tj: "cumulatedLSTdiff ev LST (arrangements ! i) \<le> cumulatedLSTdiff ev LST (arrangements ! j)"
      if "j < length arrangements" "topTier cfg arrangements completions j" for j
    proof -
      have "?cs ! j \<ge> ?min" using that(2) unfolding topTier_def csn[OF that(1)] mx .
      with i(4) that(1) show ?thesis by blast
    qed
    have "bestChoice cfg ev arrangements completions LST i"
      unfolding bestChoice_def using False i(1) ti tj by simp
    with a i(2) show ?thesis by auto
  qed
qed

lemma createSets_frame:
  "scienceExposures (createSets w pairs) = scienceExposures w
   \<and> plateSets (createSets w pairs) = plateSets w
   \<and> setTable (createSets w pairs) = setTable w @ map (\<lambda>(p, ss). (p, None)) pairs"
  by (induction pairs arbitrary: w) auto

lemma createSets_untouched:
  assumes "\<forall>ps\<in>set pairs. n \<notin> exposureNumbers (snd ps)"
  shows "set_pk_of (createSets w pairs) n = set_pk_of w n"
  using assms by (induction pairs arbitrary: w) (auto simp: exposureNumbers_def)

lemma createSets_assigned:
  assumes "i < length pairs" and "n \<in> exposureNumbers (snd (pairs ! i))"
    and "\<forall>j<length pairs. i < j \<longrightarrow> n \<notin> exposureNumbers (snd (pairs ! j))"
  shows "set_pk_of (createSets w pairs) n = Some (fst (pairs ! i))"
  using assms
proof (induction pairs arbitrary: w i)
  case Nil
  then show ?case by simp
next
  case (Cons ps rest)
  obtain newPK ss where ps: "ps = (newPK, ss)" by (cases ps)
  let ?w = "w\<lparr>setTable := setTable w @ [(newPK, None)],
          set_pk_of := (\<lambda>n. if n \<in> exposure_no ` set (totoroExposures ss) then Some newPK
                              else set_pk_of w n)\<rparr>"
  show ?case
  proof (cases i)
    case 0
    have "\<forall>q\<in>set rest. n \<notin> exposureNumbers (snd q)"
    proof
      fix q assume "q \<in> set rest"
      then obtain j where j: "j < length rest" "rest ! j = q" by (auto simp: in_set_conv_nth)
      from Cons.prems(3)[rule_format, of "Suc j"] j 0 show "n \<notin> exposureNumbers (snd q)" by auto
    qed
    from createSets_untouched[OF this, of ?w]
    show ?thesis using 0 Cons.prems(2) by (simp add: ps exposureNumbers_def)
  next
    case (Suc i')
    have a: "i' < length rest" using Cons.prems(1) Suc by simp
    have b: "n \<in> exposureNumbers (snd (rest ! i'))" using Cons.prems(2) Suc by simp
    have c: "\<forall>j<length rest. i' < j \<longrightarrow> n \<notin> exposureNumbers (snd (rest ! j))"
    proof (intro allI impI)
      fix j assume "j < length rest" "i' < j"
      with Cons.prems(3)[rule_format, of "Suc j"] Suc show "n \<notin> exposureNumbers (snd (rest ! j))"
        by auto
    qed
    from Cons.IH[OF a b c, of ?w] show ?thesis using Suc by (simp add: ps)
  qed
qed

lemma deletePlateSets_kept:
  "setTable (deletePlateSets w) = keptRows w
   \<and> set_pk_of (deletePlateSets w) = set_pk_of w
   \<and> scienceExposures (deletePlateSets w) = scienceExposures w
   \<and> plateSets (deletePlateSets w) = plateSets w"
proof -
  have "setTable (deletePlateSets w) = keptRows w"
    unfolding deletePlateSets_def keptRows_def Let_def
    by (auto intro!: filter_cong simp: image_iff; metis)
  then show ?thesis by (simp add: deletePlateSets_def Let_def)
qed

lemma getConsecutiveSets_Inr:
  assumes "getConsecutiveSets rows n = Inr pks"
  shows "length pks = n \<and> (\<forall>i. Suc i < length pks \<longrightarrow> pks ! Suc i = pks ! i + 1)
         \<and> set pks \<inter> set rows = {}"
proof (cases "n = 0")
  case True
  with assms have "pks = []"
    by (auto simp: getConsecutiveSets_def Let_def split: sum.splits if_splits option.splits)
  with True show ?thesis by simp
next
  case False
  have "2 \<le> length rows"
  proof (rule ccontr)
    assume "\<not> 2 \<le> length rows"
    then consider "rows = []" | p where "rows = [p]"
      by (cases rows; cases "tl rows") auto
    then show False
      using assms
      by cases (simp_all add: getConsecutiveSets_def squeeze_tolist_def py_sorted_def)
  qed
  from getConsecutiveSets_contract[OF this, of n] False assms show ?thesis by auto
qed

lemma applyArrangement_applied:
  assumes "applyArrangement w arrangement0 = Inr (b, w')"
  shows "b \<and> arrangementApplied w arrangement0 w'"
proof -
  let ?arr = "filter (\<lambda>ss. \<not> hasOverrideLabel (status ss)) arrangement0"
  let ?w1 = "deletePlateSets w"
  have eq: "(\<exists>m\<in>set (concat (map (\<lambda>ss. map isMock (totoroExposures ss)) ?arr)). m)
      = (\<exists>ss\<in>set ?arr. \<exists>e\<in>set (totoroExposures ss). isMock e)" by auto
  show ?thesis
  proof (cases "\<exists>ss\<in>set ?arr. \<exists>e\<in>set (totoroExposures ss). isMock e")
    case True
    have "applyArrangement w arrangement0 = Inr (True, w\<lparr>plateSets := ?arr\<rparr>)"
      unfolding applyArrangement_def Let_def eq by (rule if_not_P) (use True in blast)
    with assms have "b" "w' = w\<lparr>plateSets := ?arr\<rparr>" by simp_all
    with True show ?thesis by (simp add: arrangementApplied_def Let_def)
  next
    case False
    have "applyArrangement w arrangement0 =
        (case getConsecutiveSets (map fst (setTable ?w1)) (length ?arr) of
           Inl e \<Rightarrow> Inl e
         | Inr pks \<Rightarrow>
             Inr (True, (createSets ?w1 (zip pks ?arr))
                          \<lparr>plateSets := getMangaDBSets (createSets ?w1 (zip pks ?arr))\<rparr>))"
      unfolding applyArrangement_def Let_def eq by (rule if_P) (use False in blast)
    with assms obtain pks where
      g: "getConsecutiveSets (map fst (setTable ?w1)) (length ?arr) = Inr pks"
      and b: "b" and w': "w' = (createSets ?w1 (zip pks ?arr))\<lparr>plateSets := getMangaDBSets (createSets ?w1 (zip pks ?arr))\<rparr>"
      by (auto split: sum.splits)
    note k = deletePlateSets_kept[of w]
    from getConsecutiveSets_Inr[OF g] have len: "length pks = length ?arr"
      and cons: "\<forall>i. Suc i < length pks \<longrightarrow> pks ! Suc i = pks ! i + 1"
      and fresh: "set pks \<inter> fst ` set (keptRows w) = {}" using k by auto
    let ?w2 = "createSets ?w1 (zip pks ?arr)"
    note f = createSets_frame[of ?w1 "zip pks ?arr"]
    have tab: "setTable w' = keptRows w @ map (\<lambda>p. (p, None)) pks"
    proof -
      have "map (\<lambda>(p, ss). (p, None :: set_status option)) (zip pks ?arr) = map (\<lambda>p. (p, None)) pks"
        using len by (intro nth_equalityI) auto
      then show ?thesis unfolding w' using f k by simp
    qed
    have sci: "scienceExposures w' = scienceExposures w" unfolding w' using f k by simp
    have pk2: "set_pk_of w' = set_pk_of ?w2" unfolding w' by simp
    have asg: "set_pk_of w' n = Some (pks ! i)"
      if "i < length ?arr" "n \<in> exposureNumbers (?arr ! i)"
        "\<forall>j<length ?arr. i < j \<longrightarrow> n \<notin> exposureNumbers (?arr ! j)" for i n
    proof -
      have "set_pk_of ?w2 n = Some (fst (zip pks ?arr ! i))"
        by (rule createSets_assigned) (use that len in auto)
      then show ?thesis unfolding pk2 using that(1) len by simp
    qed
    have unt: "set_pk_of w' n = set_pk_of w n"
      if "\<forall>ss\<in>set ?arr. n \<notin> exposureNumbers ss" for n
    proof -
      have "\<forall>ps\<in>set (zip pks ?arr). n \<notin> exposureNumbers (snd ps)"
        using that by (auto dest: set_zip_rightD)
      from createSets_untouched[OF this, of ?w1] show ?thesis unfolding pk2 using k by simp
    qed
    have rel: "plateSets w' = getMangaDBSets w'"
      unfolding w' by (simp add: getMangaDBSets_def)
    have asg': "\<forall>i<length ?arr. \<forall>n\<in>exposureNumbers (?arr ! i).
        (\<forall>j<length ?arr. i < j \<longrightarrow> n \<notin> exposureNumbers (?arr ! j))
        \<longrightarrow> set_pk_of w' n = Some (pks ! i)" using asg by blast
    have unt': "\<forall>n. (\<forall>ss\<in>set ?arr. n \<notin> exposureNumbers ss)
        \<longrightarrow> set_pk_of w' n = set_pk_of w n" using unt by blast
    have ex: "\<exists>pks. length pks = length ?arr
                   \<and> (\<forall>i. Suc i < length pks \<longrightarrow> pks ! Suc i = pks ! i + 1)
                   \<and> set pks \<inter> fst ` set (keptRows w) = {}
                   \<and> setTable w' = keptRows w @ map (\<lambda>p. (p, None)) pks
                   \<and> (\<forall>i<length ?arr. \<forall>n\<in>exposureNumbers (?arr ! i).
                          (\<forall>j<length ?arr. i < j \<longrightarrow>
                              n \<notin> exposureNumbers (?arr ! j))
                          \<longrightarrow> set_pk_of w' n = Some (pks ! i))
                   \<and> (\<forall>n. (\<forall>ss\<in>set ?arr. n \<notin> exposureNumbers ss)
                          \<longrightarrow> set_pk_of w' n = set_pk_of w n)
                   \<and> plateSets w' = getMangaDBSets w'"
      by (rule exI[of _ pks]) (intro conjI len cons fresh tab asg' unt' rel)
    have "arrangementApplied w arrangement0 w'"
      unfolding arrangementApplied_def Let_def if_not_P[OF False]
      by (rule conjI[OF sci ex])
    with b show ?thesis by simp
  qed
qed

section \<open>Properties of \<^verbatim>\<open>rearrangeSets\<close>: the permutation limit\<close>

lemma rearrangeLoop_counter:
  "rearrangeLoop cfg ev valids ovs perms (m, c, g, n) = Inr (m', c', g', n')
     \<Longrightarrow> n' = n + length perms"
proof (induction perms arbitrary: m c g n)
  case Nil
  then show ?case by simp
next
  case (Cons p rest)
  let ?sets0 = "permutationSets valids p"
  let ?m = "fold (memoSet ev) ?sets0 m"
  let ?pc = "completionOf cfg (sumBands (map (\<lambda>ss. memoSN2 ?m (getSetId ev ss)) (?sets0 @ ovs)))"
  show ?case
  proof (cases "length c = 0 \<or> ?pc \<ge> setRearrangementFactor cfg * list_max c")
    case True
    with Cons.prems obtain fixed where
      "rearrangeLoop cfg ev valids ovs rest (?m, c @ [?pc], g @ [fixed], n + 1) = Inr (m', c', g', n')"
      by (auto simp: Let_def split: sum.splits)
    from Cons.IH[OF this] show ?thesis by simp
  next
    case False
    with Cons.prems have
      "rearrangeLoop cfg ev valids ovs rest (?m, c, g, n + 1) = Inr (m', c', g', n')"
      by (auto simp: Let_def)
    from Cons.IH[OF this] show ?thesis by simp
  qed
qed

lemma rearrangeLoop_kept:
  assumes "rearrangeLoop cfg ev valids ovs perms (m, c, g, n) = Inr (m', c', g', n')"
    and "length g = length c"
  shows "length g' = length c'
     \<and> (\<forall>arr\<in>set g'. arr \<in> set g
            \<or> (\<exists>p\<in>set perms. fixBadSets ev (permutationSets valids p @ ovs) = Inr arr))"
  using assms
proof (induction perms arbitrary: m c g n)
  case Nil
  then show ?case by simp
next
  case (Cons p rest)
  let ?sets0 = "permutationSets valids p"
  let ?m = "fold (memoSet ev) ?sets0 m"
  let ?pc = "completionOf cfg (sumBands (map (\<lambda>ss. memoSN2 ?m (getSetId ev ss)) (?sets0 @ ovs)))"
  show ?case
  proof (cases "length c = 0 \<or> ?pc \<ge> setRearrangementFactor cfg * list_max c")
    case True
    with Cons.prems(1) obtain fixed where
      f: "fixBadSets ev (?sets0 @ ovs) = Inr fixed"
      and r: "rearrangeLoop cfg ev valids ovs rest (?m, c @ [?pc], g @ [fixed], n + 1)
                = Inr (m', c', g', n')"
      by (auto simp: Let_def split: sum.splits)
    have "length (g @ [fixed]) = length (c @ [?pc])" using Cons.prems(2) by simp
    from Cons.IH[OF r this] f show ?thesis by auto
  next
    case False
    with Cons.prems(1) have
      r: "rearrangeLoop cfg ev valids ovs rest (?m, c, g, n + 1) = Inr (m', c', g', n')"
      by (auto simp: Let_def)
    from Cons.IH[OF r Cons.prems(2)] show ?thesis by auto
  qed
qed

lemma enumerate_kept:
  assumes "enumerate cfg ev sc w = Inr (m, completions, goodArrangements, n)"
  shows "length goodArrangements = length completions"
    and "n = length (calculatePermutations (map ditherPosition (validExposures ev sc w)))"
    and "\<forall>arr\<in>set goodArrangements.
           \<exists>p\<in>set (calculatePermutations (map ditherPosition (validExposures ev sc w))).
             fixBadSets ev (permutationSets (validExposures ev sc w) p @ overridenSets w) = Inr arr"
proof -
  note e = assms[unfolded enumerate_def]
  from rearrangeLoop_kept[OF e] show "length goodArrangements = length completions"
    and "\<forall>arr\<in>set goodArrangements.
           \<exists>p\<in>set (calculatePermutations (map ditherPosition (validExposures ev sc w))).
             fixBadSets ev (permutationSets (validExposures ev sc w) p @ overridenSets w) = Inr arr"
    by auto
  from rearrangeLoop_counter[OF e]
  show "n = length (calculatePermutations (map ditherPosition (validExposures ev sc w)))" by simp
qed

lemma enumerateAndApply_result:
  assumes "enumerateAndApply cfg ev sc LST w = Inr (b, w', n)"
  shows "\<exists>m completions goodArrangements optimalArrangement.
      enumerate cfg ev sc w = Inr (m, completions, goodArrangements, n)
      \<and> selectOpticalArrangement cfg ev goodArrangements
           (addPlateCompletion cfg ev sc w completions) LST = Inr optimalArrangement
      \<and> applyArrangement w (addGoodSets ev sc w optimalArrangement) = Inr (b, w')"
  using assms unfolding enumerateAndApply_def
  by (auto split: sum.splits prod.splits)

text \<open>
  What a call that enumerates has done when it returns: it has gone through every
  permutation, every arrangement that it kept is a permutation with its Bad sets split,
  the arrangement that it chose is a best choice of the design among the kept ones, and
  the state is the one that the application of the design leaves.
\<close>

lemma enumerateAndApply_spec:
  assumes "enumerateAndApply cfg ev sc LST w = Inr (b, w', n)"
  shows "b \<and> n = length (calculatePermutations (map ditherPosition (validExposures ev sc w)))
     \<and> (\<exists>m completions goodArrangements i.
           enumerate cfg ev sc w = Inr (m, completions, goodArrangements, n)
           \<and> (\<forall>arr\<in>set goodArrangements.
                 \<exists>p\<in>set (calculatePermutations (map ditherPosition (validExposures ev sc w))).
                   fixBadSets ev (permutationSets (validExposures ev sc w) p @ overridenSets w)
                     = Inr arr)
           \<and> bestChoice cfg ev goodArrangements (addPlateCompletion cfg ev sc w completions) LST i
           \<and> arrangementApplied w (addGoodSets ev sc w (goodArrangements ! i)) w')"
proof -
  from enumerateAndApply_result[OF assms] obtain m completions goodArrangements optimal where
    e: "enumerate cfg ev sc w = Inr (m, completions, goodArrangements, n)"
    and s: "selectOpticalArrangement cfg ev goodArrangements
           (addPlateCompletion cfg ev sc w completions) LST = Inr optimal"
    and a: "applyArrangement w (addGoodSets ev sc w optimal) = Inr (b, w')" by blast
  note k = enumerate_kept[OF e]
  have "length goodArrangements = length (addPlateCompletion cfg ev sc w completions)"
    using k(1) by (simp add: addPlateCompletion_def)
  from selectOpticalArrangement_best[OF this s] obtain i where
    i: "optimal = goodArrangements ! i"
      "bestChoice cfg ev goodArrangements (addPlateCompletion cfg ev sc w completions) LST i"
    by blast
  from applyArrangement_applied[OF a] have b: "b"
    and ap: "arrangementApplied w (addGoodSets ev sc w (goodArrangements ! i)) w'"
    unfolding i(1) by blast+
  from e k(2,3) i(2) ap b show ?thesis by blast
qed




text \<open>
  The only way for \<^verbatim>\<open>rearrangeSets\<close> in optimal mode to return \<^verbatim>\<open>False\<close> is the test of
  the permutation limit, which leaves everything as it is.
\<close>

lemma rearrangeSets_False:
  assumes "rearrangeSets cfg ev Optimal sc force LST w = Inr (False, w', n)"
  shows "w' = w \<and> n = 0 \<and> \<not> force
     \<and> (\<exists>count. getNumberPermutations ev (map ditherPosition (validExposures ev sc w)) = Inr count
           \<and> count > permutationLimit cfg sc)"
proof -
  have sc: "sc \<noteq> ScopeInvalid" using assms by (auto simp: rearrangeSets_def)
  have v: "validExposures ev sc w \<noteq> []" using assms sc by (auto simp: rearrangeSets_def)
  from assms sc v obtain count where
    c: "getNumberPermutations ev (map ditherPosition (validExposures ev sc w)) = Inr count"
    by (auto simp: rearrangeSets_def split: sum.splits)
  show ?thesis
  proof (cases "count > permutationLimit cfg sc \<and> \<not> force")
    case True
    with assms sc v c show ?thesis by (auto simp: rearrangeSets_def)
  next
    case False
    with assms sc v c have "enumerateAndApply cfg ev sc LST w = Inr (False, w', n)"
      by (auto simp: rearrangeSets_def)
    from enumerateAndApply_spec[OF this] show ?thesis by simp
  qed
qed

text \<open>
  The double-precision evaluation of the concrete environments is exact below \<open>2^53\<close>.
\<close>

declare bitLength.simps [simp del]








lemma big_valid: "validExposures env0 ScopeAll big_world = big_exposures"
  by (simp add: validExposures_def scopeExposures_def big_world_def big_exposures_def
      getSetStatusLabel_def hasOverrideLabel_def mkExposure_def)

lemma big_groups:
  "maxGroupSize (map ditherPosition big_exposures) = 171
   \<and> numDithers (map ditherPosition big_exposures) = 2"
  by code_simp

lemma big_overflow:
  "case rearrangeSets cfg0 env0 Optimal ScopeAll False None big_world of
     Inl e \<Rightarrow> e = OverflowError | Inr r \<Rightarrow> False"
  by code_simp



text \<open>
  Claim C3 as stated fails where the count is not a number: with 171 exposures at the
  same dither position and one at another, \<open>m!^(k-1) = 171!\<close> is above the limit of 30,
  \<^verbatim>\<open>factorial(171)\<close> is infinite in double precision, \<^verbatim>\<open>int\<close> raises
  \<^verbatim>\<open>OverflowError\<close>, and the call with \<^verbatim>\<open>force=False\<close> raises it instead of returning
  \<^verbatim>\<open>False\<close>.
\<close>

theorem rearrangeSets_limit_counterexample:
  "validExposures env0 ScopeAll big_world \<noteq> []
   \<and> maxGroupSize (map ditherPosition (validExposures env0 ScopeAll big_world)) = 171
   \<and> numDithers (map ditherPosition (validExposures env0 ScopeAll big_world)) = 2
   \<and> int (fact 171 ^ (2 - 1)) > permutationLimit cfg0 ScopeAll
   \<and> (case rearrangeSets cfg0 env0 Optimal ScopeAll False None big_world of
         Inl e \<Rightarrow> e = OverflowError | Inr r \<Rightarrow> False)"
proof -
  have v: "validExposures env0 ScopeAll big_world \<noteq> []"
    by (simp add: big_valid) (simp add: big_exposures_def)
  have "(171::nat) \<le> fact 171" by (rule fact_ge_self)
  then have "(30::int) < int (fact 171)" by linarith
  then have l: "int (fact 171 ^ (2 - 1)) > permutationLimit cfg0 ScopeAll"
    by (simp add: permutationLimit_def cfg0_def)
  show ?thesis using v big_groups l big_overflow by (simp add: big_valid)
qed


lemma pair_valid:
  "validExposures env0 ScopeAll pair_world
     = [mkExposure 1 (Some DitherN) 1, mkExposure 2 (Some DitherS) 1]"
  by (simp add: validExposures_def scopeExposures_def pair_world_def
      getSetStatusLabel_def hasOverrideLabel_def mkExposure_def)




section \<open>Properties of \<^verbatim>\<open>updatePlate\<close>\<close>













section \<open>Override sets and plate completion under \<^verbatim>\<open>rearrangeSets\<close>\<close>

text \<open>
  Claim C6 (override sets are preserved by every rearrangement). The plate \<open>ov_world\<close>
  holds a set labelled Override Good and an incomplete set with a mock exposure. The
  rearrangement in optimal mode, scope incomplete, carries the overridden set through the
  enumeration, but \<^verbatim>\<open>applyArrangement\<close> first removes the overridden sets from the
  arrangement and then, because an exposure is mock, assigns what is left to
  \<^verbatim>\<open>plate.sets\<close>: the overridden set is no longer a set of the plate. (The branch
  without mock exposures skips the overridden sets when it deletes and reloads them.)
\<close>

theorem rearrangeSets_drops_override_set:
  "ov_overrideSet \<in> set (plateSets ov_world) \<and> status ov_overrideSet = Some OverrideGood
   \<and> (case rearrangeSets cfg0 env0 Optimal ScopeIncomplete False None ov_world of
         Inr (b, w', n) \<Rightarrow>
           b \<and> plateSets w' = [fromExposures [mockExposure 5 (Some DitherS) 1,
                                                mkExposure 4 (Some DitherN) 1]]
             \<and> ov_overrideSet \<notin> set (plateSets w')
       | Inl e \<Rightarrow> False)"
  by code_simp

text \<open>
  Claim C2 (a rearrangement in optimal mode never decreases the completion of the plate).
  On the same plate the completion over the sets that are not Bad is \<open>17/36\<close> before
  the call and \<open>1/18\<close> after it: the SN2 of the overridden set left the plate with the
  set.
\<close>

theorem rearrangeSets_decreases_completion:
  "getPlateCompletion cfg0 env0 True (plateSets ov_world) = 17 / 36
   \<and> (case rearrangeSets cfg0 env0 Optimal ScopeIncomplete False None ov_world of
         Inr (b, w', n) \<Rightarrow> b \<and> getPlateCompletion cfg0 env0 True (plateSets w') = 1 / 18
       | Inl e \<Rightarrow> False)
   \<and> (1 / 18 :: real) < 17 / 36"
  by code_simp

section \<open>Properties of \<^verbatim>\<open>Timeline.schedule\<close>\<close>

lemma scheduleLoop_returns:
  assumes "\<forall>st ps iv pr p st'. getOptimalPlate sch st ps iv pr = (Some p, st') \<longrightarrow> p \<in> set ps"
  shows "\<exists>r. scheduleLoop sch pr plates (tline, st, platesCopy) = Inr r"
  using assms
proof (induction sch pr plates "(tline, st, platesCopy)" arbitrary: tline st platesCopy
       rule: scheduleLoop.induct)
  case (1 sch prioritisePlugged plates tline st platesCopy)
  show ?case
  proof (cases "remainingTime tline > 0 \<and> length plates > 0")
    case False
    then show ?thesis by (auto simp del: scheduleLoop.simps simp add: scheduleLoop.simps[of sch prioritisePlugged plates tline st platesCopy])
  next
    case True
    obtain o' st' where g: "getOptimalPlate sch st platesCopy (unallocatedExps tline) prioritisePlugged = (o', st')"
      by (cases "getOptimalPlate sch st platesCopy (unallocatedExps tline) prioritisePlugged")
    show ?thesis
    proof (cases o')
      case None
      with True g show ?thesis
        by (auto simp del: scheduleLoop.simps simp add: scheduleLoop.simps[of sch prioritisePlugged plates tline st platesCopy])
    next
      case (Some p)
      with g "1.prems" have m: "p \<in> set platesCopy" by blast
      let ?next = "(allocateJDs sch st' (tline\<lparr>scheduled := scheduled tline @ [p]\<rparr>) [p],
                     st', remove1 p platesCopy)"
      from "1.hyps"[OF True g[unfolded Some, symmetric] refl m "1.prems"]
      obtain r where r: "scheduleLoop sch prioritisePlugged plates ?next = Inr r" by blast
      have eq: "scheduleLoop sch prioritisePlugged plates (tline, st, platesCopy)
          = scheduleLoop sch prioritisePlugged plates ?next"
        using True g Some m
        by (simp del: scheduleLoop.simps add: scheduleLoop.simps[of sch prioritisePlugged plates tline st platesCopy])
      show ?thesis unfolding eq using r by (rule exI)
    qed
  qed
qed


text \<open>
  Claim C10 (\<^verbatim>\<open>Timeline.schedule\<close>). Whenever \<^verbatim>\<open>schedule\<close> returns, it returns
  \<^verbatim>\<open>True\<close> if and only if the remaining time of the timeline as it leaves it is exactly
  zero; and it always returns when the optimal plate is one of the plates it was chosen
  from (the loop ends at the latest when the candidates are used up).
\<close>

theorem schedule_true_iff_no_time_left:
  "(schedule sch tline st plates plugger force = Inr (b, tline', st')
      \<longrightarrow> (b \<longleftrightarrow> remainingTime tline' = 0))
   \<and> ((\<forall>st ps iv pr p st'. getOptimalPlate sch st ps iv pr = (Some p, st') \<longrightarrow> p \<in> set ps)
      \<longrightarrow> (\<exists>b tline' st'. schedule sch tline st plates plugger force = Inr (b, tline', st')))"
proof (intro conjI impI)
  assume "schedule sch tline st plates plugger force = Inr (b, tline', st')"
  then show "b \<longleftrightarrow> remainingTime tline' = 0"
    unfolding schedule_def Let_def by (auto split: sum.splits prod.splits)
next
  let ?plates = "case plates of None \<Rightarrow> [] | Some ps \<Rightarrow> ps"
  let ?filtered = "if \<not> force then filter (\<lambda>plate. \<not> isComplete sch st plate) ?plates else ?plates"
  assume "\<forall>st ps iv pr p st'. getOptimalPlate sch st ps iv pr = (Some p, st') \<longrightarrow> p \<in> set ps"
  from scheduleLoop_returns[OF this, of plugger ?filtered "tline\<lparr>scheduled := []\<rparr>" st ?plates]
  obtain t1 s1 pc1 where "scheduleLoop sch plugger ?filtered (tline\<lparr>scheduled := []\<rparr>, st, ?plates)
      = Inr (t1, s1, pc1)" by (metis prod_cases3)
  then show "\<exists>b tline' st'. schedule sch tline st plates plugger force = Inr (b, tline', st')"
    unfolding schedule_def Let_def by simp
qed

lemma night_two_plates:
  "case schedule night_scheduling night () (Some [0, 1]) True False of
     Inr (b, t, s) \<Rightarrow> b \<and> unallocatedExps t = [] \<and> scheduled t = [0, 1] | Inl e \<Rightarrow> False"
  by code_simp

lemma night_one_plate:
  "case schedule night_scheduling night () (Some [0]) True False of
     Inr (b, t, s) \<Rightarrow> \<not> b \<and> unallocatedExps t = [(1, 2)] \<and> scheduled t = [0] | Inl e \<Rightarrow> False"
  by code_simp

theorem schedule_true_iff_no_time_left_witness:
  "(\<exists>t s. schedule night_scheduling night () (Some [0, 1]) True False = Inr (True, t, s)
          \<and> remainingTime t = 0)
   \<and> (\<exists>t s. schedule night_scheduling night () (Some [0]) True False = Inr (False, t, s)
          \<and> remainingTime t \<noteq> 0)"
proof -
  have h: "\<forall>st ps iv pr p st'. getOptimalPlate night_scheduling st ps iv pr = (Some p, st') \<longrightarrow> p \<in> set ps"
    by (auto simp: night_scheduling_def split: list.splits)
  from night_two_plates obtain t s where
    a: "schedule night_scheduling night () (Some [0, 1]) True False = Inr (True, t, s)"
    by (auto split: sum.splits)
  from night_one_plate obtain t' s' where
    b: "schedule night_scheduling night () (Some [0]) True False = Inr (False, t', s')"
    by (auto split: sum.splits)
  from schedule_true_iff_no_time_left[of night_scheduling night "()" "Some [0, 1]" True False True t s] a
  have a': "remainingTime t = 0" by blast
  from schedule_true_iff_no_time_left[of night_scheduling night "()" "Some [0]" True False False t' s'] b
  have b': "remainingTime t' \<noteq> 0" by blast
  from schedule_true_iff_no_time_left[of night_scheduling night "()" "Some [0, 1]" True False] h
  have "\<exists>b t s. schedule night_scheduling night () (Some [0, 1]) True False = Inr (b, t, s)"
    by blast
  with a a' b b' show ?thesis by blast
qed

end
